theory Spec2Isabelle
  imports Complex_Main
begin

section \<open>JavaScript values\<close>

text \<open>
  A JavaScript string is a sequence of UTF-16 code units. Every character the player's
  regular expressions name lies in the Basic Multilingual Plane, so it is one code unit.
  \<open>js\<close> turns an ASCII literal into its code units.
\<close>

type_synonym jsstring = "nat list"

definition js :: "string \<Rightarrow> jsstring" where
  "js s = map of_char s"

text \<open>A field declared \<open>f?: T | null\<close> is absent (\<open>undefined\<close>), \<open>null\<close>, or a value.\<close>

datatype 'a nullable = Undefined | Null | Val 'a

text \<open>\<open>v ?? null\<close> on such a field.\<close>

definition orNull :: "'a nullable \<Rightarrow> 'a nullable" where
  "orNull v = (case v of Undefined \<Rightarrow> Null | Null \<Rightarrow> Null | Val x \<Rightarrow> Val x)"

text \<open>Truthiness of a string (the empty string is falsy) and of an optional string.\<close>

definition truthy :: "jsstring \<Rightarrow> bool" where
  "truthy s = (s \<noteq> [])"

definition truthyOpt :: "jsstring option \<Rightarrow> bool" where
  "truthyOpt v = (case v of None \<Rightarrow> False | Some s \<Rightarrow> truthy s)"

definition truthyNullable :: "jsstring nullable \<Rightarrow> bool" where
  "truthyNullable v = (case v of Val s \<Rightarrow> truthy s | _ \<Rightarrow> False)"

text \<open>
  The characters \<open>\s\<close> matches and \<open>trim\<close> strips: WhiteSpace and LineTerminator of
  ECMAScript (tab, LF, VT, FF, CR, space, U+00A0, U+1680, U+2000..U+200A, U+2028, U+2029,
  U+202F, U+205F, U+3000, U+FEFF).
\<close>

definition isWhiteSpace :: "nat \<Rightarrow> bool" where
  "isWhiteSpace c =
     (c \<in> set [9, 10, 11, 12, 13, 32, 160, 5760, 8232, 8233, 8239, 8287, 12288, 65279]
      \<or> (8192 \<le> c \<and> c \<le> 8202))"

definition trim :: "jsstring \<Rightarrow> jsstring" where
  "trim s = rev (dropWhile isWhiteSpace (rev (dropWhile isWhiteSpace s)))"

text \<open>\<open>\d\<close> without the unicode flag: the ten ASCII digits.\<close>

definition isDigit :: "nat \<Rightarrow> bool" where
  "isDigit c = (48 \<le> c \<and> c \<le> 57)"

text \<open>\<open>Number.parseInt(s, 10)\<close> on a non-empty string of digits (the only use made of it).\<close>

definition parseInt10 :: "jsstring \<Rightarrow> nat" where
  "parseInt10 s = foldl (\<lambda>a c. 10 * a + (c - 48)) 0 s"

text \<open>\<open>s.includes(sub)\<close>: \<open>sub\<close> occurs in \<open>s\<close> as a contiguous run.\<close>

fun includesStr :: "jsstring \<Rightarrow> jsstring \<Rightarrow> bool" where
  "includesStr [] sub = (sub = [])"
| "includesStr (c # cs) sub = (take (length sub) (c # cs) = sub \<or> includesStr cs sub)"

text \<open>\<open>s.replace(/&amp;/g, '&')\<close>: every occurrence, left to right, without overlap.\<close>

fun replaceAmp :: "jsstring \<Rightarrow> jsstring" where
  "replaceAmp [] = []"
| "replaceAmp (c # cs) =
     (if take 5 (c # cs) = [38, 97, 109, 112, 59] then 38 # replaceAmp (drop 4 cs)
      else c # replaceAmp cs)"

section \<open>Data model (data/localTracks.ts, components/MusicPlayer.tsx)\<close>

datatype MusicSource = Netease | Kuwo | Joox

definition sourceName :: "MusicSource \<Rightarrow> jsstring" where
  "sourceName s = (case s of Netease \<Rightarrow> js ''netease'' | Kuwo \<Rightarrow> js ''kuwo'' | Joox \<Rightarrow> js ''joox'')"

datatype BitrateOption = B128 | B192 | B320 | B740 | B999

definition bitrateString :: "BitrateOption \<Rightarrow> jsstring" where
  "bitrateString b =
     (case b of B128 \<Rightarrow> js ''128'' | B192 \<Rightarrow> js ''192'' | B320 \<Rightarrow> js ''320''
      | B740 \<Rightarrow> js ''740'' | B999 \<Rightarrow> js ''999'')"

record LocalTrack =
  id_field :: jsstring
  name :: jsstring
  artist :: "jsstring option"
  album :: "jsstring option"
  duration :: "jsstring option"
  source :: MusicSource
  keyword :: "jsstring option"
  trackId :: "jsstring option"
  picId :: "jsstring option"
  lyricId :: "jsstring option"
  bitrate :: "BitrateOption option"

text \<open>\<open>Track = LocalTrack & { url?, cover?, lyric?, tLyric?, fileSizeKb? }\<close>\<close>

record Track = LocalTrack +
  url :: "jsstring option"
  cover :: "jsstring nullable"
  lyric :: "jsstring nullable"
  tLyric :: "jsstring nullable"
  fileSizeKb :: "rat nullable"

text \<open>The \<open>artist\<close> of a search item is a string or an array of strings.\<close>

datatype artist_value = ArtistNames "jsstring list" | ArtistName jsstring

text \<open>
  The \<open>id\<close> of a search item is a string or a number. The numeric ids of the remote
  API are non-negative integers below \<open>2^53\<close>; \<open>String(id)\<close> is then the decimal numeral.
\<close>

datatype item_id = IdString jsstring | IdNumber nat

record SearchApiItem =
  item_id :: item_id
  item_name :: "jsstring option"
  item_artist :: "artist_value option"
  item_album :: "jsstring option"
  pic_id :: "jsstring option"
  lyric_id :: "jsstring option"
  item_source :: "jsstring option"

record UrlApiResponse =
  url_url :: "jsstring option"
  url_br :: "rat option"
  url_size :: "rat option"

record PicApiResponse =
  pic_url :: "jsstring option"

record LyricApiResponse =
  resp_lyric :: "jsstring nullable"
  resp_tlyric :: "jsstring nullable"

text \<open>
  A time in seconds or \<open>Number.POSITIVE_INFINITY\<close>. The finite times the parser builds
  are \<open>i + m / 1000\<close> with integers \<open>i < 6040\<close> and \<open>m < 1000\<close>; the double the program
  computes is determined by \<open>i\<close> and \<open>m\<close> and lies within \<open>2^-40\<close> of that rational, so
  distinct rationals of this form give distinct doubles in the same order: comparisons
  and \<open>===\<close> on the doubles agree with those on the rationals.
\<close>

datatype js_time = Seconds rat | PositiveInfinity

instantiation js_time :: linorder
begin

definition less_eq_js_time :: "js_time \<Rightarrow> js_time \<Rightarrow> bool" where
  "less_eq_js_time a b =
     (case b of PositiveInfinity \<Rightarrow> True
      | Seconds y \<Rightarrow> (case a of PositiveInfinity \<Rightarrow> False | Seconds x \<Rightarrow> x \<le> y))"

definition less_js_time :: "js_time \<Rightarrow> js_time \<Rightarrow> bool" where
  "less_js_time a b = (a \<le> b \<and> \<not> b \<le> (a :: js_time))"

instance
proof
  fix x y z :: js_time
  show "(x < y) = (x \<le> y \<and> \<not> y \<le> x)"
    by (simp add: less_js_time_def)
  show "x \<le> x"
    by (simp add: less_eq_js_time_def split: js_time.splits)
  show "x \<le> y \<Longrightarrow> y \<le> z \<Longrightarrow> x \<le> z"
    by (auto simp: less_eq_js_time_def split: js_time.splits)
  show "x \<le> y \<Longrightarrow> y \<le> x \<Longrightarrow> x = y"
    by (auto simp: less_eq_js_time_def split: js_time.splits)
  show "x \<le> y \<or> y \<le> x"
    by (auto simp: less_eq_js_time_def split: js_time.splits)
qed

end

record LyricLine =
  time :: js_time
  text_field :: jsstring

section \<open>sanitizeUrl, createTrack\<close>

definition sanitizeUrl :: "jsstring \<Rightarrow> jsstring" where
  "sanitizeUrl u = replaceAmp u"

definition createTrack :: "LocalTrack \<Rightarrow> Track" where
  "createTrack track =
     \<lparr> id_field = id_field track, name = name track, artist = artist track,
       album = album track, duration = duration track, source = source track,
       keyword = keyword track, trackId = trackId track, picId = picId track,
       lyricId = lyricId track, bitrate = bitrate track,
       url = None,
       cover = (if truthyOpt (picId track) then Undefined else Null),
       lyric = Null,
       tLyric = Null,
       fileSizeKb = Null \<rparr>"

text \<open>The descriptor part of a track: the fields of \<open>LocalTrack\<close>.\<close>

definition descriptor :: "Track \<Rightarrow> LocalTrack" where
  "descriptor t =
     \<lparr> id_field = id_field t, name = name t, artist = artist t,
       album = album t, duration = duration t, source = source t,
       keyword = keyword t, trackId = trackId t, picId = picId t,
       lyricId = lyricId t, bitrate = bitrate t \<rparr>"

section \<open>parseLyricLines\<close>

text \<open>\<open>lyric.split(/\r?\n/)\<close>; \<open>acc\<close> is the piece being read.\<close>

fun splitLines :: "jsstring \<Rightarrow> jsstring \<Rightarrow> jsstring list" where
  "splitLines acc [] = [acc]"
| "splitLines acc (c # cs) =
     (if c = 10 then acc # splitLines [] cs
      else if c = 13 \<and> take 1 cs = [10] then acc # splitLines [] (drop 1 cs)
      else splitLines (acc @ [c]) cs)"

text \<open>\<open>\d{1,n}\<close> at the start of \<open>s\<close>, greedy.\<close>

definition takeDigits :: "nat \<Rightarrow> jsstring \<Rightarrow> jsstring" where
  "takeDigits n s = takeWhile isDigit (take n s)"

text \<open>
  \<open>/\[(\d{1,2}):(\d{1,2})(?:\.(\d{1,3}))?]/\<close> matched at the start of \<open>s\<close>: the three
  groups and the length of the match. A greedy run of digits decides the match, since
  the character after a group is never a digit.
\<close>

type_synonym time_tag = "jsstring \<times> jsstring \<times> jsstring option"

definition matchTimeTag :: "jsstring \<Rightarrow> (time_tag \<times> nat) option" where
  "matchTimeTag s =
     (if take 1 s \<noteq> [91] then None
      else let m1 = takeDigits 2 (drop 1 s); s1 = drop (1 + length m1) s in
        if m1 = [] \<or> take 1 s1 \<noteq> [58] then None
        else let m2 = takeDigits 2 (drop 1 s1); s2 = drop (1 + length m2) s1 in
          if m2 = [] then None
          else if take 1 s2 = [93] then Some ((m1, m2, None), length m1 + length m2 + 3)
          else if take 1 s2 \<noteq> [46] then None
          else let m3 = takeDigits 3 (drop 1 s2); s3 = drop (1 + length m3) s2 in
            if m3 = [] \<or> take 1 s3 \<noteq> [93] then None
            else Some ((m1, m2, Some m3), length m1 + length m2 + length m3 + 4))"

text \<open>\<open>line.replace(timeTagRegex, '')\<close> and \<open>[...line.matchAll(timeTagRegex)]\<close>.\<close>

fun stripTimeTags :: "jsstring \<Rightarrow> jsstring" where
  "stripTimeTags [] = []"
| "stripTimeTags (c # cs) =
     (case matchTimeTag (c # cs) of
        Some (g, n) \<Rightarrow> stripTimeTags (drop (n - 1) cs)
      | None \<Rightarrow> c # stripTimeTags cs)"

fun matchAllTimeTags :: "jsstring \<Rightarrow> time_tag list" where
  "matchAllTimeTags [] = []"
| "matchAllTimeTags (c # cs) =
     (case matchTimeTag (c # cs) of
        Some (g, n) \<Rightarrow> g # matchAllTimeTags (drop (n - 1) cs)
      | None \<Rightarrow> matchAllTimeTags cs)"

text \<open>\<open>millisRaw.padEnd(3, '0').slice(0, 3)\<close>\<close>

definition padEnd3 :: "jsstring \<Rightarrow> jsstring" where
  "padEnd3 s = take 3 (s @ replicate (3 - length s) 48)"

definition totalSeconds :: "time_tag \<Rightarrow> rat" where
  "totalSeconds m =
     (case m of (m1, m2, m3) \<Rightarrow>
        let minutes = parseInt10 m1;
            seconds = parseInt10 m2;
            millisRaw = (case m3 of None \<Rightarrow> [48] | Some f \<Rightarrow> f);
            millis = parseInt10 (padEnd3 millisRaw)
        in of_nat minutes * 60 + of_nat seconds + of_nat millis / 1000)"

text \<open>The inner loop \<open>for (const match of matches)\<close>, pushing onto \<open>result\<close>.\<close>

fun pushMatches :: "jsstring \<Rightarrow> time_tag list \<Rightarrow> LyricLine list \<Rightarrow> LyricLine list" where
  "pushMatches text [] result = result"
| "pushMatches text (m # ms) result =
     pushMatches text ms
       (if length text > 0 then result @ [\<lparr> time = Seconds (totalSeconds m), text_field = text \<rparr>]
        else result)"

text \<open>The outer loop \<open>for (const line of lines)\<close>.\<close>

fun parseLines :: "jsstring list \<Rightarrow> LyricLine list \<Rightarrow> LyricLine list" where
  "parseLines [] result = result"
| "parseLines (line # lines) result =
     (let text = trim (stripTimeTags line);
          matches = matchAllTimeTags line
      in if length matches = 0
         then (if length text > 0
               then parseLines lines (result @ [\<lparr> time = PositiveInfinity, text_field = text \<rparr>])
               else parseLines lines result)
         else parseLines lines (pushMatches text matches result))"

text \<open>The reducer that drops an entry equal to the last one kept.\<close>

definition dedupe :: "LyricLine list \<Rightarrow> LyricLine \<Rightarrow> LyricLine list" where
  "dedupe acc current =
     (if length acc = 0 then acc @ [current]
      else let prev = last acc in
        if time prev = time current \<and> text_field prev = text_field current then acc
        else acc @ [current])"

text \<open>
  \<open>Array.prototype.sort\<close> is stable, and the comparator \<open>a.time - b.time\<close> orders by
  time (\<open>Infinity - Infinity\<close> is \<open>NaN\<close>, which \<open>sort\<close> reads as equal): the result is the
  stable sort by \<open>time\<close>.
\<close>

definition parseLyricLines :: "jsstring nullable \<Rightarrow> LyricLine list" where
  "parseLyricLines lyricArg =
     (if \<not> truthyNullable lyricArg then []
      else case lyricArg of
        Val s \<Rightarrow> foldl dedupe [] (sort_key time (parseLines (splitLines [] s) []))
      | _ \<Rightarrow> [])"

section \<open>The JavaScript runtime and the remote API\<close>

text \<open>
  Errors are told apart by their message: one constructor for each \<open>throw new Error(..)\<close>
  of the component, for a rejected \<open>fetch\<close>, for a body that is not JSON, and for the
  message \<open>performSearch\<close> shows when a search finds nothing.
\<close>

datatype error =
    TooManyRequests
  | ServiceUnavailable
  | FetchFailed
  | InvalidJson
  | KeywordMissing
  | SongNotFound
  | NoPlayUrl
  | TrackMissing
  | NoSearchMatch

type_synonym params = "(jsstring \<times> jsstring) list"

text \<open>What one \<open>fetch\<close> followed by \<open>response.json()\<close> comes to.\<close>

datatype 'a fetch_outcome = FetchRejected | HttpNotOk | BodyNotJson | Body 'a

text \<open>
  The world outside the component. \<open>toLowerCase\<close> is \<open>String.prototype.toLowerCase\<close>;
  \<open>dateNow k\<close> is what the \<open>k\<close>-th reading of \<open>Date.now()\<close> returns; the four
  endpoints give the reply to a request, after the requests sent so far, read at the
  type the caller casts it to (\<open>None\<close>: a JSON value that is \<open>null\<close> or, for the
  search, not an array).
\<close>

record env =
  toLowerCase :: "jsstring \<Rightarrow> jsstring"
  dateNow :: "nat \<Rightarrow> int"
  searchApi :: "params list \<Rightarrow> params \<Rightarrow> SearchApiItem list option fetch_outcome"
  urlApi :: "params list \<Rightarrow> params \<Rightarrow> UrlApiResponse option fetch_outcome"
  picApi :: "params list \<Rightarrow> params \<Rightarrow> PicApiResponse option fetch_outcome"
  lyricApi :: "params list \<Rightarrow> params \<Rightarrow> LyricApiResponse option fetch_outcome"

section \<open>normalizeText, collectArtistTokens, selectBestSearchResult\<close>

text \<open>
  The class \<open>[\s'"...\-]\<close> of \<open>normalizeText\<close>: white space, ASCII and CJK quotes,
  brackets and punctuation.
\<close>

definition isSeparator :: "nat \<Rightarrow> bool" where
  "isSeparator c =
     (isWhiteSpace c
      \<or> c \<in> set [39, 34, 12289, 65292, 12290, 65281, 65311, 33, 65288, 65289, 40, 41,
                 12304, 12305, 91, 93, 12298, 12299, 8220, 8221, 8216, 8217, 183, 46, 95,
                 47, 45])"

definition normalizeText :: "env \<Rightarrow> jsstring option \<Rightarrow> jsstring" where
  "normalizeText e v =
     (case v of None \<Rightarrow> []
      | Some s \<Rightarrow>
          if \<not> truthy s then []
          else filter (\<lambda>c. \<not> isSeparator c) (replaceAmp (toLowerCase e s)))"

text \<open>
  The separator \<open>/[,\<dots>x\<dots>+\<dots>]|feat\.?|ft\.?|with|..|../gi\<close> matched at the start of
  \<open>s\<close>: the length of the match. With the \<open>i\<close> flag and no \<open>u\<close> flag a pattern letter
  matches its two ASCII cases and nothing else.
\<close>

definition ciPrefix :: "string \<Rightarrow> jsstring \<Rightarrow> bool" where
  "ciPrefix w s =
     (length w \<le> length s
      \<and> list_all2 (\<lambda>p c. c = of_char p \<or> c + 32 = of_char p) w (take (length w) s))"

definition matchArtistSeparator :: "jsstring \<Rightarrow> nat option" where
  "matchArtistSeparator s =
     (if s = [] then None
      else if hd s \<in> set [44, 65292, 47, 38, 12289, 120, 88, 215, 43, 183] then Some 1
      else if ciPrefix ''feat'' s then Some (if take 1 (drop 4 s) = [46] then 5 else 4)
      else if ciPrefix ''ft'' s then Some (if take 1 (drop 2 s) = [46] then 3 else 2)
      else if ciPrefix ''with'' s then Some 4
      else if take 2 s = [21512, 20316] then Some 2
      else if take 2 s = [21512, 21809] then Some 2
      else None)"

text \<open>\<open>item.split(separator)\<close>; \<open>acc\<close> is the piece being read.\<close>

fun splitArtist :: "jsstring \<Rightarrow> jsstring \<Rightarrow> jsstring list" where
  "splitArtist acc [] = [acc]"
| "splitArtist acc (c # cs) =
     (case matchArtistSeparator (c # cs) of
        Some n \<Rightarrow> acc # splitArtist [] (drop (n - 1) cs)
      | None \<Rightarrow> splitArtist (acc @ [c]) cs)"

definition collectArtistTokens :: "env \<Rightarrow> artist_value option \<Rightarrow> jsstring list" where
  "collectArtistTokens e a =
     (case a of None \<Rightarrow> []
      | Some (ArtistName s) \<Rightarrow>
          if \<not> truthy s then []
          else filter truthy (map (\<lambda>token. normalizeText e (Some token)) (splitArtist [] s))
      | Some (ArtistNames raw) \<Rightarrow>
          filter truthy
            (map (\<lambda>token. normalizeText e (Some token)) (concat (map (splitArtist []) raw))))"

text \<open>The score the callback of \<open>results.forEach\<close> gives an item.\<close>

definition itemScore :: "env \<Rightarrow> jsstring \<Rightarrow> jsstring list \<Rightarrow> Track \<Rightarrow> SearchApiItem \<Rightarrow> int" where
  "itemScore e targetName targetArtists target item =
     (let itemName = normalizeText e (item_name item);
          itemArtists = collectArtistTokens e (item_artist item);
          score1 = (if truthy targetName \<and> itemName = targetName then 4
                    else if truthy targetName \<and> includesStr itemName targetName then 2
                    else 0);
          score2 = (if length targetArtists > 0 \<and> length itemArtists > 0
                    then (if list_ex (\<lambda>token. token \<in> set targetArtists) itemArtists
                          then score1 + 4 else score1)
                    else score1)
      in if truthyOpt (item_source item) \<and> item_source item = Some (sourceName (source target))
         then score2 + 1 else score2)"

text \<open>
  The loop \<open>results.forEach\<close> over the items from position \<open>index\<close> on, with the
  variables \<open>best\<close>, \<open>bestScore\<close> (\<open>None\<close> is \<open>-Infinity\<close>) and \<open>bestIndex\<close>.
\<close>

fun forEachResult ::
  "(SearchApiItem \<Rightarrow> int) \<Rightarrow> SearchApiItem list \<Rightarrow> nat
   \<Rightarrow> SearchApiItem \<times> int option \<times> nat \<Rightarrow> SearchApiItem \<times> int option \<times> nat" where
  "forEachResult sc [] index st = st"
| "forEachResult sc (item # rest) index (best, bestScore, bestIndex) =
     (let score = sc item in
      if (case bestScore of None \<Rightarrow> True | Some b \<Rightarrow> score > b)
         \<or> (bestScore = Some score \<and> index < bestIndex)
      then forEachResult sc rest (index + 1) (item, Some score, index)
      else forEachResult sc rest (index + 1) (best, bestScore, bestIndex))"

definition selectBestSearchResult ::
  "env \<Rightarrow> SearchApiItem list option \<Rightarrow> Track \<Rightarrow> SearchApiItem option" where
  "selectBestSearchResult e results target =
     (case results of None \<Rightarrow> None
      | Some [] \<Rightarrow> None
      | Some (r0 # rs) \<Rightarrow>
          let targetName = normalizeText e (Some (name target));
              targetArtists = collectArtistTokens e (map_option ArtistName (artist target))
          in Some (fst (forEachResult (itemScore e targetName targetArtists target)
                          (r0 # rs) 0 (r0, None, 0))))"

section \<open>The component's state\<close>

datatype PlaybackMode = Order | Single | Shuffle

text \<open>
  The state variables and refs the modelled functions read or write, and two histories:
  how many times \<open>Date.now()\<close> was read and which requests were sent to the remote API.
  \<open>soundRef\<close> tells whether \<open>soundRef.current\<close> holds a sound.
\<close>

record player =
  currentSongIndex :: int
  isPlaying :: bool
  progress :: rat
  durationState :: rat
  currentTime :: rat
  localTracks :: "Track list"
  selectedSource :: MusicSource
  selectedBitrate :: BitrateOption
  allTracks :: "Track list"
  musicList :: "Track list"
  coverUrl :: "jsstring option"
  loadingTrackIndex :: "int option"
  errorMessage :: "error option"
  isSearching :: bool
  showingSearchResults :: bool
  showTranslation :: bool
  searchPage :: int
  searchHasMore :: bool
  searchPageInput :: jsstring
  lastSearchKeyword :: "jsstring option"
  soundRef :: bool
  autoPlayRef :: bool
  playbackModeRef :: PlaybackMode
  playRequestIdRef :: nat
  requestTimestampsRef :: "int list"
  searchRequestIdRef :: nat
  clockReads :: nat
  fetchLog :: "params list"

section \<open>registerRequest, callMusicApi\<close>

definition RATE_LIMIT_WINDOW_MS :: int where
  "RATE_LIMIT_WINDOW_MS = 5 * 60 * 1000"

definition RATE_LIMIT_MAX_REQUESTS :: nat where
  "RATE_LIMIT_MAX_REQUESTS = 60"

text \<open>
  \<open>registerRequest\<close>, given what \<open>Date.now()\<close> returns and the content of
  \<open>requestTimestampsRef.current\<close>: the error thrown, if any, and the new content
  (the filtered list is stored before the test).
\<close>

definition registerRequest :: "int \<Rightarrow> int list \<Rightarrow> error option \<times> int list" where
  "registerRequest now timestamps =
     (let windowStart = now - RATE_LIMIT_WINDOW_MS;
          kept = filter (\<lambda>timestamp. timestamp \<ge> windowStart) timestamps
      in if length kept \<ge> RATE_LIMIT_MAX_REQUESTS then (Some TooManyRequests, kept)
         else (None, kept @ [now]))"

text \<open>
  \<open>callMusicApi\<close> on one endpoint. The request is sent, and logged, only after
  \<open>registerRequest\<close> has returned.
\<close>

definition callMusicApi ::
  "env \<Rightarrow> (params list \<Rightarrow> params \<Rightarrow> 'a fetch_outcome) \<Rightarrow> params \<Rightarrow> player
   \<Rightarrow> (error + 'a) \<times> player" where
  "callMusicApi e endpoint ps s =
     (case registerRequest (dateNow e (clockReads s)) (requestTimestampsRef s) of
        (Some err, ts) \<Rightarrow>
          (Inl err, s\<lparr> requestTimestampsRef := ts, clockReads := clockReads s + 1 \<rparr>)
      | (None, ts) \<Rightarrow>
          let s1 = s\<lparr> requestTimestampsRef := ts, clockReads := clockReads s + 1,
                      fetchLog := fetchLog s @ [ps] \<rparr>
          in (case endpoint (fetchLog s) ps of
                FetchRejected \<Rightarrow> (Inl FetchFailed, s1)
              | HttpNotOk \<Rightarrow> (Inl ServiceUnavailable, s1)
              | BodyNotJson \<Rightarrow> (Inl InvalidJson, s1)
              | Body v \<Rightarrow> (Inr v, s1)))"

text \<open>
  The calls of \<open>registerRequest\<close> at the times \<open>nows\<close>, in this order, starting from
  the list \<open>timestamps\<close>: the times of the calls that did not throw.
\<close>

fun admitted :: "int list \<Rightarrow> int list \<Rightarrow> int list" where
  "admitted timestamps [] = []"
| "admitted timestamps (now # nows) =
     (case registerRequest now timestamps of
        (Some err, ts) \<Rightarrow> admitted ts nows
      | (None, ts) \<Rightarrow> now # admitted ts nows)"

text \<open>The timestamps of the interval \<open>[a, a + RATE_LIMIT_WINDOW_MS]\<close>.\<close>

definition inWindow :: "int \<Rightarrow> int \<Rightarrow> bool" where
  "inWindow a t = (a \<le> t \<and> t \<le> a + RATE_LIMIT_WINDOW_MS)"

section \<open>The catalog and the API route (data/localTracks.ts, pages/api/music.ts)\<close>

text \<open>
  \<open>LOCAL_TRACKS\<close>, the four entries of the catalog; the characters outside ASCII are
  written as their code units.
\<close>

definition LOCAL_TRACKS :: "LocalTrack list" where
  "LOCAL_TRACKS =
     [ \<lparr> id_field = js ''netease-1867150097'',
         name = [22799, 38686],
         artist = Some ([12354, 12383, 12425, 12424]),
         album = Some ([22799, 38686]),
         duration = None,
         source = Netease,
         keyword = Some ([22799, 38686] @ js '' '' @ [12354, 12383, 12425, 12424]),
         trackId = Some (js ''1867150097''),
         picId = Some (js ''109951166253940594''),
         lyricId = Some (js ''1867150097''),
         bitrate = Some B320 \<rparr>,
       \<lparr> id_field = js ''netease-1835951859'',
         name = js ''Avid'',
         artist = Some (js ''SawanoHiroyuki[nZk], '' @ [29790, 33909] @ js ''(mizuki)''),
         album = Some (js ''Avid / Hands Up to the Sky''),
         duration = None,
         source = Netease,
         keyword = Some (js ''Avid SawanoHiroyuki[nZk], '' @ [29790, 33909] @ js ''(mizuki)''),
         trackId = Some (js ''1835951859''),
         picId = Some (js ''109951166004106688''),
         lyricId = Some (js ''1835951859''),
         bitrate = Some B320 \<rparr>,
       \<lparr> id_field = js ''netease-554245242'',
         name = js ''Cage'',
         artist = Some (js ''Tielle, SawanoHiroyuki[nZk]''),
         album = Some (js ''Binary Star/Cage''),
         duration = None,
         source = Netease,
         keyword = Some (js ''Cage Tielle, SawanoHiroyuki[nZk]''),
         trackId = Some (js ''554245242''),
         picId = Some (js ''109951166200369055''),
         lyricId = Some (js ''554245242''),
         bitrate = Some B320 \<rparr>,
       \<lparr> id_field = js ''netease-2051328176'',
         name = [20693, 12425, 12399, 12381, 12428, 12434, 24859, 12392, 21628, 12435, 12384],
         artist = Some ([12354, 12383, 12425, 12424]),
         album = Some ([20693, 12425, 12399, 12381, 12428, 12434, 24859, 12392, 21628, 12435, 12384]),
         duration = None,
         source = Netease,
         keyword = Some ([20693, 12425, 12399, 12381, 12428, 12434, 24859, 12392, 21628, 12435, 12384] @ js '' '' @ [12354, 12383, 12425, 12424]),
         trackId = Some (js ''2051328176''),
         picId = Some (js ''109951168645551891''),
         lyricId = Some (js ''2051328176''),
         bitrate = Some B320 \<rparr> ]"

record request =
  req_method :: jsstring
  req_headers :: "(jsstring \<times> jsstring) list"
  req_body :: "jsstring option"

record response =
  statusCode :: nat
  jsonBody :: "LocalTrack list"

text \<open>\<open>res.status(200).json(LOCAL_TRACKS)\<close>: the response that is sent.\<close>

definition handler :: "request \<Rightarrow> response" where
  "handler req = \<lparr> statusCode = 200, jsonBody = LOCAL_TRACKS \<rparr>"

section \<open>ensureTrackResolved\<close>

text \<open>\<open>String(n)\<close> for a non-negative integer, and \<open>String(id)\<close>.\<close>

fun digitsOf :: "nat \<Rightarrow> jsstring" where
  "digitsOf n = (if n < 10 then [48 + n] else digitsOf (n div 10) @ [48 + n mod 10])"

declare digitsOf.simps [simp del]

definition numberString :: "int \<Rightarrow> jsstring" where
  "numberString i = (if i < 0 then 45 # digitsOf (nat (- i)) else digitsOf (nat i))"

definition idString :: "item_id \<Rightarrow> jsstring" where
  "idString i = (case i of IdString s \<Rightarrow> s | IdNumber n \<Rightarrow> digitsOf n)"

definition DEFAULT_SEARCH_COUNT :: nat where
  "DEFAULT_SEARCH_COUNT = 8"

definition DEFAULT_COVER_SIZE :: jsstring where
  "DEFAULT_COVER_SIZE = js ''300''"

text \<open>\<open>artistValue.join(', ')\<close> for an array, the value itself for a string.\<close>

fun joinComma :: "jsstring list \<Rightarrow> jsstring" where
  "joinComma [] = []"
| "joinComma [x] = x"
| "joinComma (x # y # ys) = x @ [44, 32] @ joinComma (y # ys)"

definition artistText :: "artist_value option \<Rightarrow> jsstring option" where
  "artistText a =
     (case a of None \<Rightarrow> None
      | Some (ArtistName v) \<Rightarrow> Some v
      | Some (ArtistNames vs) \<Rightarrow> Some (joinComma vs))"

definition updateTrackInStates :: "Track \<Rightarrow> player \<Rightarrow> player" where
  "updateTrackInStates updated s =
     s\<lparr> localTracks := map (\<lambda>item. if id_field item = id_field updated then updated else item)
                          (localTracks s),
        allTracks := map (\<lambda>item. if id_field item = id_field updated then updated else item)
                        (allTracks s),
        musicList := map (\<lambda>item. if id_field item = id_field updated then updated else item)
                        (musicList s) \<rparr>"

text \<open>\<open>(track.keyword ?? `${track.name} ${track.artist ?? ''}`).trim()\<close>\<close>

definition keywordOf :: "Track \<Rightarrow> jsstring" where
  "keywordOf track =
     trim (case keyword track of
             Some k \<Rightarrow> k
           | None \<Rightarrow> name track @ [32] @ (case artist track of Some a \<Rightarrow> a | None \<Rightarrow> []))"

text \<open>The local variables the search branch may overwrite.\<close>

record resolved_ids =
  r_trackId :: "jsstring option"
  r_picId :: "jsstring option"
  r_lyricId :: "jsstring option"
  r_name :: jsstring
  r_album :: "jsstring option"
  r_artist :: "jsstring option"

definition searchParams :: "Track \<Rightarrow> jsstring \<Rightarrow> params" where
  "searchParams track kw =
     [(js ''types'', js ''search''), (js ''source'', sourceName (source track)),
      (js ''name'', kw), (js ''count'', digitsOf DEFAULT_SEARCH_COUNT), (js ''pages'', js ''1'')]"

text \<open>
  The first part of \<open>ensureTrackResolved\<close>: the local variables as initialised from the
  track, and the block \<open>if (!trackId) { .. }\<close>.
\<close>

definition resolveIds :: "env \<Rightarrow> Track \<Rightarrow> player \<Rightarrow> (error + resolved_ids) \<times> player" where
  "resolveIds e track s =
     (let ids0 = \<lparr> r_trackId = trackId track, r_picId = picId track, r_lyricId = lyricId track,
                   r_name = name track, r_album = album track, r_artist = artist track \<rparr>
      in if truthyOpt (trackId track) then (Inr ids0, s)
         else if \<not> truthy (keywordOf track) then (Inl KeywordMissing, s)
         else (case callMusicApi e (searchApi e) (searchParams track (keywordOf track)) s of
                 (Inl err, s1) \<Rightarrow> (Inl err, s1)
               | (Inr searchResults, s1) \<Rightarrow>
                   let list = (case searchResults of Some xs \<Rightarrow> xs | None \<Rightarrow> []) in
                   (case selectBestSearchResult e (Some list) track of
                      None \<Rightarrow> (Inl SongNotFound, s1)
                    | Some best \<Rightarrow>
                        (Inr \<lparr> r_trackId = Some (idString (item_id best)),
                               r_picId = (if truthyOpt (pic_id best) then pic_id best
                                          else picId track),
                               r_lyricId = (if truthyOpt (lyric_id best) then lyric_id best
                                            else lyricId track),
                               r_name = (if truthyOpt (item_name best) then the (item_name best)
                                         else name track),
                               r_album = (if truthyOpt (item_album best) then item_album best
                                          else album track),
                               r_artist = (if truthyOpt (artistText (item_artist best))
                                           then artistText (item_artist best)
                                           else artist track) \<rparr>, s1))))"

definition urlParams :: "Track \<Rightarrow> jsstring option \<Rightarrow> BitrateOption \<Rightarrow> params" where
  "urlParams track tid desiredBitrate =
     [(js ''types'', js ''url''), (js ''source'', sourceName (source track)),
      (js ''id'', (case tid of Some i \<Rightarrow> i | None \<Rightarrow> js ''undefined'')),
      (js ''br'', bitrateString desiredBitrate)]"

definition picParams :: "Track \<Rightarrow> jsstring \<Rightarrow> params" where
  "picParams track pid =
     [(js ''types'', js ''pic''), (js ''source'', sourceName (source track)),
      (js ''id'', pid), (js ''size'', DEFAULT_COVER_SIZE)]"

definition lyricParams :: "Track \<Rightarrow> jsstring \<Rightarrow> params" where
  "lyricParams track lid =
     [(js ''types'', js ''lyric''), (js ''source'', sourceName (source track)), (js ''id'', lid)]"

text \<open>The block \<open>if (picId) { try { .. } catch { } }\<close>: the cover and the new state.\<close>

definition fetchCover ::
  "env \<Rightarrow> Track \<Rightarrow> jsstring option \<Rightarrow> player \<Rightarrow> jsstring nullable \<times> player" where
  "fetchCover e track pid s =
     (let cover0 = orNull (cover track) in
      if \<not> truthyOpt pid then (cover0, s)
      else (case callMusicApi e (picApi e) (picParams track (the pid)) s of
              (Inl err, s1) \<Rightarrow> (cover0, s1)
            | (Inr picData, s1) \<Rightarrow>
                (case picData of
                   None \<Rightarrow> (cover0, s1)
                 | Some d \<Rightarrow>
                     (case pic_url d of
                        None \<Rightarrow> (cover0, s1)
                      | Some u \<Rightarrow> if truthy (trim u) then (Val u, s1) else (cover0, s1)))))"

text \<open>\<open>typeof v === 'string' && v.trim()\<close>\<close>

definition nonBlank :: "jsstring nullable \<Rightarrow> bool" where
  "nonBlank v = (case v of Val l \<Rightarrow> truthy (trim l) | _ \<Rightarrow> False)"

text \<open>
  The block \<open>if (!lyricText && lyricId) { try { .. } catch { } }\<close>: \<open>lyricText\<close>,
  \<open>translationText\<close> and the new state.
\<close>

definition fetchLyric ::
  "env \<Rightarrow> Track \<Rightarrow> jsstring option \<Rightarrow> player
   \<Rightarrow> (jsstring nullable \<times> jsstring nullable) \<times> player" where
  "fetchLyric e track lid s =
     (let lyricText = orNull (lyric track);
          translationText = orNull (tLyric track)
      in if truthyNullable lyricText \<or> \<not> truthyOpt lid then ((lyricText, translationText), s)
         else (case callMusicApi e (lyricApi e) (lyricParams track (the lid)) s of
                 (Inl err, s1) \<Rightarrow> ((lyricText, translationText), s1)
               | (Inr lyricData, s1) \<Rightarrow>
                   (case lyricData of
                      None \<Rightarrow> ((lyricText, translationText), s1)
                    | Some d \<Rightarrow>
                        ((if nonBlank (resp_lyric d) then resp_lyric d else lyricText,
                          if nonBlank (resp_tlyric d) then resp_tlyric d else translationText),
                         s1))))"

text \<open>
  \<open>ensureTrackResolved\<close>, run without another handler of the component in between
  its awaits.
\<close>

definition ensureTrackResolved ::
  "env \<Rightarrow> Track \<Rightarrow> BitrateOption \<Rightarrow> player \<Rightarrow> (error + Track) \<times> player" where
  "ensureTrackResolved e track desiredBitrate s =
     (if truthyOpt (url track) \<and> bitrate track = Some desiredBitrate then (Inr track, s)
      else (case resolveIds e track s of
              (Inl err, s1) \<Rightarrow> (Inl err, s1)
            | (Inr ids, s1) \<Rightarrow>
                (case callMusicApi e (urlApi e)
                        (urlParams track (r_trackId ids) desiredBitrate) s1 of
                   (Inl err, s2) \<Rightarrow> (Inl err, s2)
                 | (Inr urlData, s2) \<Rightarrow>
                     if \<not> truthyOpt (case urlData of None \<Rightarrow> None | Some d \<Rightarrow> url_url d)
                     then (Inl NoPlayUrl, s2)
                     else
                       let resolvedUrl = sanitizeUrl (the (url_url (the urlData)));
                           (cover1, s3) = fetchCover e track (r_picId ids) s2;
                           ((lyricText, translationText), s4) =
                              fetchLyric e track (r_lyricId ids) s3;
                           size1 = (case url_size (the urlData) of
                                      Some n \<Rightarrow> Val n
                                    | None \<Rightarrow> orNull (fileSizeKb track));
                           resolvedTrack =
                             track\<lparr> url := Some resolvedUrl,
                                    trackId := r_trackId ids,
                                    picId := r_picId ids,
                                    lyricId := r_lyricId ids,
                                    cover := cover1,
                                    name := r_name ids,
                                    album := r_album ids,
                                    artist := r_artist ids,
                                    bitrate := Some desiredBitrate,
                                    lyric := lyricText,
                                    tLyric := translationText,
                                    fileSizeKb := size1 \<rparr>
                       in (Inr resolvedTrack, updateTrackInStates resolvedTrack s4))))"

section \<open>playSong, playNext, playPrevious, resetPlayer\<close>

definition resetPlayer :: "player \<Rightarrow> player" where
  "resetPlayer s =
     s\<lparr> playRequestIdRef := playRequestIdRef s + 1,
        loadingTrackIndex := None,
        soundRef := False,
        isPlaying := False,
        currentSongIndex := - 1,
        coverUrl := None,
        progress := 0,
        currentTime := 0,
        durationState := 0 \<rparr>"

text \<open>
  \<open>playSong\<close> after \<open>await ensureTrackResolved(..)\<close> has settled with \<open>outcome\<close>, in
  the state \<open>s\<close> the component is in at that moment: the rest of the \<open>try\<close> block or the
  \<open>catch\<close> block, then the \<open>finally\<close> block. \<open>requestId\<close> is the id the invocation
  captured.
\<close>

definition playSong_resume :: "nat \<Rightarrow> int \<Rightarrow> bool \<Rightarrow> error + Track \<Rightarrow> player \<Rightarrow> player" where
  "playSong_resume requestId index autoplay outcome s =
     (let s1 = (case outcome of
                  Inr resolvedTrack \<Rightarrow>
                    if playRequestIdRef s \<noteq> requestId then s
                    else s\<lparr> soundRef := False,
                            autoPlayRef := autoplay,
                            progress := 0,
                            currentTime := 0,
                            durationState := 0,
                            currentSongIndex := index,
                            coverUrl := (case cover resolvedTrack of Val c \<Rightarrow> Some c
                                         | _ \<Rightarrow> None) \<rparr>
                | Inl err \<Rightarrow>
                    if playRequestIdRef s = requestId then s\<lparr> errorMessage := Some err \<rparr>
                    else s)
      in if playRequestIdRef s1 = requestId then s1\<lparr> loadingTrackIndex := None \<rparr> else s1)"

text \<open>
  \<open>playSong\<close> up to the \<open>await\<close>: the new state and, when the invocation is suspended,
  the request id and the track it waits for. When the track already has a url nothing
  is awaited and the invocation runs to its end. The list read is never out of range,
  so \<open>if (!originalTrack) throw ..\<close> is not taken.
\<close>

definition playSong_begin :: "int \<Rightarrow> bool \<Rightarrow> player \<Rightarrow> (nat \<times> Track) option \<times> player" where
  "playSong_begin index autoplay s =
     (if index < 0 \<or> index \<ge> int (length (musicList s)) then (None, s)
      else if loadingTrackIndex s = Some index then (None, s)
      else
        let requestId = playRequestIdRef s + 1;
            s1 = s\<lparr> playRequestIdRef := requestId,
                    loadingTrackIndex := Some index,
                    errorMessage := None,
                    isPlaying := False \<rparr>;
            originalTrack = musicList s ! nat index;
            needsNewBitrate = (bitrate originalTrack \<noteq> Some (selectedBitrate s));
            baseTrack = originalTrack\<lparr> bitrate := Some (selectedBitrate s),
                                       url := (if needsNewBitrate then None
                                               else url originalTrack),
                                       fileSizeKb := (if needsNewBitrate then Null
                                                      else orNull (fileSizeKb originalTrack)) \<rparr>;
            s2 = updateTrackInStates baseTrack s1
        in if \<not> truthyOpt (url baseTrack) then (Some (requestId, baseTrack), s2)
           else (None, playSong_resume requestId index autoplay (Inr baseTrack) s2))"

text \<open>\<open>playSong\<close> run without another handler in between.\<close>

definition playSong :: "env \<Rightarrow> int \<Rightarrow> bool \<Rightarrow> player \<Rightarrow> player" where
  "playSong e index autoplay s =
     (case playSong_begin index autoplay s of
        (None, s1) \<Rightarrow> s1
      | (Some (requestId, baseTrack), s1) \<Rightarrow>
          (case ensureTrackResolved e baseTrack (selectedBitrate s) s1 of
             (outcome, s2) \<Rightarrow> playSong_resume requestId index autoplay outcome s2))"

text \<open>
  The loop \<open>while (candidate === currentSongIndex) candidate = Math.floor(..)\<close>, given
  the values the successive draws take.
\<close>

fun drawCandidate :: "int \<Rightarrow> int list \<Rightarrow> int option" where
  "drawCandidate current [] = None"
| "drawCandidate current (d # ds) = (if d = current then drawCandidate current ds else Some d)"

text \<open>
  \<open>playNext\<close> and \<open>playPrevious\<close>: the state after the handler and the \<open>playSong\<close> call it
  makes, that call run without another handler in between, with \<open>autoplay\<close> at its
  default \<open>true\<close>. The result is \<open>None\<close> when, in shuffle mode, the loop has not ended
  after the draws supplied.
\<close>

definition shufflePlay :: "env \<Rightarrow> int list \<Rightarrow> player \<Rightarrow> player option" where
  "shufflePlay e draws s =
     (if length (musicList s) = 1 then Some (playSong e (currentSongIndex s) True s)
      else case drawCandidate (currentSongIndex s) draws of
             None \<Rightarrow> None
           | Some candidate \<Rightarrow> Some (playSong e candidate True s))"

definition playNext :: "env \<Rightarrow> int list \<Rightarrow> player \<Rightarrow> player option" where
  "playNext e draws s =
     (if length (musicList s) = 0 then Some s
      else if currentSongIndex s < 0 then Some (playSong e 0 True s)
      else if playbackModeRef s = Shuffle then shufflePlay e draws s
      else
        let nextIndex = (if currentSongIndex s \<ge> int (length (musicList s)) - 1 then 0
                         else currentSongIndex s + 1)
        in Some (playSong e nextIndex True s))"

definition playPrevious :: "env \<Rightarrow> int list \<Rightarrow> player \<Rightarrow> player option" where
  "playPrevious e draws s =
     (if length (musicList s) = 0 then Some s
      else if currentSongIndex s < 0 then Some (playSong e 0 True s)
      else if playbackModeRef s = Shuffle then shufflePlay e draws s
      else
        let previousIndex = (if currentSongIndex s \<le> 0 then int (length (musicList s)) - 1
                             else currentSongIndex s - 1)
        in Some (playSong e previousIndex True s))"

section \<open>performSearch\<close>

text \<open>The track \<open>list.map\<close> builds from a search item.\<close>

definition mappedTrack :: "MusicSource \<Rightarrow> jsstring \<Rightarrow> BitrateOption \<Rightarrow> SearchApiItem \<Rightarrow> Track" where
  "mappedTrack src trimmedKeyword br item =
     (let tid = Some (idString (item_id item));
          pid = (if truthyOpt (pic_id item) then pic_id item else None);
          lid = (if truthyOpt (lyric_id item) then lyric_id item else tid)
      in \<lparr> id_field = sourceName src @ [45] @ idString (item_id item),
           name = (case item_name item of Some n \<Rightarrow> n | None \<Rightarrow> trimmedKeyword),
           artist = Some (case artistText (item_artist item) of Some a \<Rightarrow> a | None \<Rightarrow> []),
           album = Some (case item_album item of Some a \<Rightarrow> a | None \<Rightarrow> []),
           duration = Some [],
           source = src,
           keyword = Some trimmedKeyword,
           trackId = tid,
           picId = pid,
           lyricId = lid,
           bitrate = Some br,
           url = None,
           cover = (if truthyOpt pid then Undefined else Null),
           lyric = Null,
           tLyric = Null,
           fileSizeKb = Null \<rparr>)"

text \<open>\<open>mapped.findIndex((item) => item.id === activeTrack.id)\<close>; \<open>None\<close> is \<open>-1\<close>.\<close>

fun findIndexFrom :: "nat \<Rightarrow> jsstring \<Rightarrow> Track list \<Rightarrow> nat option" where
  "findIndexFrom i wanted [] = None"
| "findIndexFrom i wanted (t # ts) =
     (if id_field t = wanted then Some i else findIndexFrom (Suc i) wanted ts)"

text \<open>
  \<open>{ ...mapped[existingIndex], ...activeTrack }\<close>. The active track is one that has a
  sound, a resolved track: it defines every key but \<open>duration\<close> and \<open>keyword\<close>, which
  it has only when the catalog entry or search item it comes from has them.
\<close>

definition mergeTracks :: "Track \<Rightarrow> Track \<Rightarrow> Track" where
  "mergeTracks m activeTrack =
     activeTrack\<lparr> duration := (case duration activeTrack of None \<Rightarrow> duration m | Some d \<Rightarrow> Some d),
                   keyword := (case keyword activeTrack of None \<Rightarrow> keyword m | Some k \<Rightarrow> Some k) \<rparr>"

text \<open>What \<open>performSearch\<close> holds in its local variables across the \<open>await\<close>.\<close>

record search_frame =
  f_source :: MusicSource
  f_keyword :: jsstring
  f_page :: int
  f_requestId :: nat
  f_hasActiveSound :: bool
  f_activeTrack :: "Track option"
  f_bitrate :: BitrateOption

definition performSearchParams :: "search_frame \<Rightarrow> params" where
  "performSearchParams f =
     [(js ''types'', js ''search''), (js ''source'', sourceName (f_source f)),
      (js ''name'', f_keyword f), (js ''count'', digitsOf DEFAULT_SEARCH_COUNT),
      (js ''pages'', numberString (f_page f))]"

text \<open>
  \<open>performSearch\<close> after \<open>await callMusicApi(..)\<close> has settled with \<open>outcome\<close>, in the
  state \<open>s\<close> of that moment: the rest of the \<open>try\<close> block or the \<open>catch\<close> block, then the
  \<open>finally\<close> block.
\<close>

definition performSearch_resume ::
  "search_frame \<Rightarrow> error + SearchApiItem list option \<Rightarrow> player \<Rightarrow> player" where
  "performSearch_resume f outcome s =
     (let s1 =
        (case outcome of
           Inr searchResults \<Rightarrow>
             let list = (case searchResults of Some xs \<Rightarrow> xs | None \<Rightarrow> []);
                 mapped = map (mappedTrack (f_source f) (f_keyword f) (f_bitrate f)) list
             in if searchRequestIdRef s \<noteq> f_requestId f then s
                else
                  let (nextList, nextIndex) =
                        (case (f_hasActiveSound f, f_activeTrack f) of
                           (True, Some activeTrack) \<Rightarrow>
                             (case findIndexFrom 0 (id_field activeTrack) mapped of
                                Some existingIndex \<Rightarrow>
                                  (mapped[existingIndex :=
                                            mergeTracks (mapped ! existingIndex) activeTrack],
                                   Some (int existingIndex))
                              | None \<Rightarrow> (activeTrack # mapped, Some 0))
                         | _ \<Rightarrow> (mapped, None))
                  in s\<lparr> allTracks := mapped,
                        musicList := nextList,
                        currentSongIndex := (case nextIndex of Some i \<Rightarrow> i
                                             | None \<Rightarrow> currentSongIndex s),
                        showingSearchResults := True,
                        showTranslation := False,
                        lastSearchKeyword := Some (f_keyword f),
                        searchPage := f_page f,
                        searchPageInput := numberString (f_page f),
                        searchHasMore := (length mapped = DEFAULT_SEARCH_COUNT),
                        errorMessage := (if length mapped = 0 then Some NoSearchMatch
                                         else None) \<rparr>
         | Inl err \<Rightarrow>
             if searchRequestIdRef s \<noteq> f_requestId f then s
             else s\<lparr> errorMessage := Some err,
                     showingSearchResults := True,
                     showTranslation := False,
                     lastSearchKeyword := Some (f_keyword f),
                     searchPage := f_page f,
                     searchPageInput := numberString (f_page f),
                     searchHasMore := False,
                     allTracks := [],
                     musicList := (if \<not> f_hasActiveSound f then [] else musicList s) \<rparr>)
      in if searchRequestIdRef s1 = f_requestId f then s1\<lparr> isSearching := False \<rparr> else s1)"

text \<open>
  \<open>performSearch\<close> up to the \<open>await\<close>: the new state and, unless the keyword is blank,
  the frame and the settled call. \<open>callMusicApi\<close> runs \<open>registerRequest\<close> and sends the
  request before the invocation is suspended.
\<close>

definition performSearch_begin ::
  "env \<Rightarrow> MusicSource \<Rightarrow> jsstring \<Rightarrow> int \<Rightarrow> player
   \<Rightarrow> (search_frame \<times> (error + SearchApiItem list option)) option \<times> player" where
  "performSearch_begin e src kw page s =
     (let trimmedKeyword = trim kw in
      if \<not> truthy trimmedKeyword then (None, s)
      else
        let activeTrack =
              (if currentSongIndex s \<ge> 0 \<and> currentSongIndex s < int (length (musicList s))
               then Some (musicList s ! nat (currentSongIndex s)) else None);
            hasActiveSound = soundRef s;
            requestId = searchRequestIdRef s + 1;
            s1 = s\<lparr> searchRequestIdRef := requestId \<rparr>;
            s2 = (if \<not> hasActiveSound then resetPlayer s1 else s1\<lparr> autoPlayRef := False \<rparr>);
            s3 = s2\<lparr> isSearching := True, errorMessage := None \<rparr>;
            f = \<lparr> f_source = src, f_keyword = trimmedKeyword, f_page = page,
                  f_requestId = requestId, f_hasActiveSound = hasActiveSound,
                  f_activeTrack = activeTrack, f_bitrate = selectedBitrate s \<rparr>
        in (case callMusicApi e (searchApi e) (performSearchParams f) s3 of
              (outcome, s4) \<Rightarrow> (Some (f, outcome), s4)))"

text \<open>\<open>performSearch\<close> run without another handler in between.\<close>

definition performSearch :: "env \<Rightarrow> MusicSource \<Rightarrow> jsstring \<Rightarrow> int \<Rightarrow> player \<Rightarrow> player" where
  "performSearch e src kw page s =
     (case performSearch_begin e src kw page s of
        (None, s1) \<Rightarrow> s1
      | (Some (f, outcome), s1) \<Rightarrow> performSearch_resume f outcome s1)"

section \<open>The initial state and sample inputs\<close>

definition DEFAULT_SOURCE :: MusicSource where
  "DEFAULT_SOURCE = Netease"

definition INITIAL_TRACKS :: "Track list" where
  "INITIAL_TRACKS = map createTrack LOCAL_TRACKS"

definition INITIAL_SOURCE_TRACKS :: "Track list" where
  "INITIAL_SOURCE_TRACKS = filter (\<lambda>track. source track = DEFAULT_SOURCE) INITIAL_TRACKS"

text \<open>The state after the first render: the initial values of \<open>useState\<close> and \<open>useRef\<close>.\<close>

definition initialPlayer :: player where
  "initialPlayer =
     \<lparr> currentSongIndex = - 1, isPlaying = False, progress = 0, durationState = 0,
       currentTime = 0, localTracks = INITIAL_TRACKS, selectedSource = DEFAULT_SOURCE,
       selectedBitrate = B320, allTracks = INITIAL_SOURCE_TRACKS,
       musicList = INITIAL_SOURCE_TRACKS, coverUrl = None, loadingTrackIndex = None,
       errorMessage = None, isSearching = False, showingSearchResults = False,
       showTranslation = False, searchPage = 1, searchHasMore = False,
       searchPageInput = js ''1'', lastSearchKeyword = None, soundRef = False,
       autoPlayRef = False, playbackModeRef = Order, playRequestIdRef = 0,
       requestTimestampsRef = [], searchRequestIdRef = 0, clockReads = 0, fetchLog = [] \<rparr>"

text \<open>A descriptor whose \<open>picId\<close> is the empty string.\<close>

definition emptyPicTrack :: LocalTrack where
  "emptyPicTrack =
     \<lparr> id_field = js ''t1'', name = js ''Song'', artist = None, album = None,
       duration = None, source = Netease, keyword = None, trackId = None,
       picId = Some [], lyricId = None, bitrate = None \<rparr>"

text \<open>A state in which the last song of the list is the current one.\<close>

definition lastSongPlayer :: player where
  "lastSongPlayer = initialPlayer\<lparr> currentSongIndex := 3 \<rparr>"

text \<open>
  A state in which an invocation of \<open>playSong\<close> and one of \<open>performSearch\<close>, both with
  captured id 1, have been overtaken: \<open>resetPlayer\<close> ran and a later search was started.
\<close>

definition overtakenPlayer :: player where
  "overtakenPlayer = initialPlayer\<lparr> playRequestIdRef := 2, searchRequestIdRef := 2 \<rparr>"

definition staleFrame :: search_frame where
  "staleFrame =
     \<lparr> f_source = Netease, f_keyword = js ''cage'', f_page = 1, f_requestId = 1,
       f_hasActiveSound = False, f_activeTrack = None, f_bitrate = B320 \<rparr>"

text \<open>\<open>toLowerCase\<close> on strings whose cased characters are ASCII letters.\<close>

definition asciiToLowerCase :: "jsstring \<Rightarrow> jsstring" where
  "asciiToLowerCase s = map (\<lambda>c. if 65 \<le> c \<and> c \<le> 90 then c + 32 else c) s"

definition sampleItem :: SearchApiItem where
  "sampleItem =
     \<lparr> item_id = IdNumber 554245242, item_name = Some (js ''Cage''),
       item_artist = Some (ArtistNames [js ''Tielle'', js ''SawanoHiroyuki[nZk]'']),
       item_album = Some (js ''Binary Star/Cage''), pic_id = Some (js ''109951166200369055''),
       lyric_id = Some (js ''554245242''), item_source = Some (js ''netease'') \<rparr>"

text \<open>Replies of the url, pic and lyric endpoints.\<close>

definition sampleUrlReply :: UrlApiResponse where
  "sampleUrlReply = \<lparr> url_url = Some (js ''https://cdn.example/a.mp3?x=1&amp;y=2''),
                       url_br = Some 320, url_size = Some 4096 \<rparr>"

definition samplePicReply :: PicApiResponse where
  "samplePicReply = \<lparr> pic_url = Some (js ''https://img.example/a.jpg'') \<rparr>"

definition sampleLyricReply :: LyricApiResponse where
  "sampleLyricReply = \<lparr> resp_lyric = Val (js ''[00:01.50]hello''), resp_tlyric = Null \<rparr>"

text \<open>A world in which every request succeeds; the clock advances one second per reading.\<close>

definition sampleEnv :: env where
  "sampleEnv =
     \<lparr> toLowerCase = asciiToLowerCase,
       dateNow = (\<lambda>k. 1000 * int k),
       searchApi = (\<lambda>sent ps. Body (Some [sampleItem])),
       urlApi = (\<lambda>sent ps. Body (Some sampleUrlReply)),
       picApi = (\<lambda>sent ps. Body (Some samplePicReply)),
       lyricApi = (\<lambda>sent ps. Body (Some sampleLyricReply)) \<rparr>"

text \<open>A state whose rate limiter holds 60 timestamps of time 0.\<close>

definition fullPlayer :: player where
  "fullPlayer = initialPlayer\<lparr> requestTimestampsRef := replicate 60 0 \<rparr>"

section \<open>Definitions for the statements\<close>

text \<open>\<open>sub\<close> occurs in \<open>s\<close>.\<close>

definition nameContains :: "jsstring \<Rightarrow> jsstring \<Rightarrow> bool" where
  "nameContains s sub = (\<exists>before after. s = before @ sub @ after)"

text \<open>
  The score of an item in the words of the claim, with the guard on the target's name
  that the program has.
\<close>

definition claimedScore :: "env \<Rightarrow> Track \<Rightarrow> SearchApiItem \<Rightarrow> int" where
  "claimedScore e target item =
     (let targetName = normalizeText e (Some (name target));
          itemName = normalizeText e (item_name item);
          targetTokens = collectArtistTokens e (map_option ArtistName (artist target));
          itemTokens = collectArtistTokens e (item_artist item)
      in (if targetName \<noteq> [] \<and> itemName = targetName then 4
          else if targetName \<noteq> [] \<and> nameContains itemName targetName then 2 else 0)
         + (if \<exists>token \<in> set itemTokens. token \<in> set targetTokens then 4 else 0)
         + (if item_source item = Some (sourceName (source target)) then 1 else 0))"

text \<open>The score as C1 states it: equal normalized names give 4 points, empty or not.\<close>

definition statedScore :: "env \<Rightarrow> Track \<Rightarrow> SearchApiItem \<Rightarrow> int" where
  "statedScore e target item =
     (let targetName = normalizeText e (Some (name target));
          itemName = normalizeText e (item_name item);
          targetTokens = collectArtistTokens e (map_option ArtistName (artist target));
          itemTokens = collectArtistTokens e (item_artist item)
      in (if itemName = targetName then 4
          else if targetName \<noteq> [] \<and> nameContains itemName targetName then 2 else 0)
         + (if \<exists>token \<in> set itemTokens. token \<in> set targetTokens then 4 else 0)
         + (if item_source item = Some (sourceName (source target)) then 1 else 0))"

text \<open>
  What the loop of \<open>selectBestSearchResult\<close> returns from a state with a score: the
  state it started from when no item scores higher, else the first item of the highest
  score and its position.
\<close>

definition loopSpec ::
  "(SearchApiItem \<Rightarrow> int) \<Rightarrow> SearchApiItem list \<Rightarrow> nat \<Rightarrow> SearchApiItem \<Rightarrow> int \<Rightarrow> nat
   \<Rightarrow> SearchApiItem \<times> int option \<times> nat \<Rightarrow> bool" where
  "loopSpec sc xs index best b bi R =
     ((R = (best, Some b, bi) \<and> (\<forall>x \<in> set xs. sc x \<le> b))
      \<or> (\<exists>ys zs. xs = ys @ fst R # zs \<and> snd R = (Some (sc (fst R)), index + length ys)
            \<and> b < sc (fst R)
            \<and> (\<forall>y \<in> set ys. sc y < sc (fst R)) \<and> (\<forall>z \<in> set zs. sc z \<le> sc (fst R))))"

text \<open>A track whose name is made of punctuation only, and two search items for it.\<close>

definition punctTrack :: Track where
  "punctTrack =
     createTrack \<lparr> id_field = js ''local-1'', name = js ''!!!'', artist = None, album = None,
       duration = None, source = Netease, keyword = None, trackId = None,
       picId = None, lyricId = None, bitrate = None \<rparr>"

definition otherItem :: SearchApiItem where
  "otherItem =
     \<lparr> item_id = IdNumber 1, item_name = Some (js ''Other song''), item_artist = None,
       item_album = None, pic_id = None, lyric_id = None, item_source = Some (js ''netease'') \<rparr>"

definition punctItem :: SearchApiItem where
  "punctItem =
     \<lparr> item_id = IdNumber 2, item_name = Some (js ''!!!''), item_artist = None,
       item_album = None, pic_id = None, lyric_id = None, item_source = Some (js ''kuwo'') \<rparr>"

text \<open>The third track of the catalog.\<close>

definition cageTrack :: Track where
  "cageTrack = createTrack (LOCAL_TRACKS ! 2)"

text \<open>The entries of one line, in the words of the claim.\<close>

definition claimedEntries :: "jsstring \<Rightarrow> LyricLine list" where
  "claimedEntries line =
     (let text = trim (stripTimeTags line);
          tags = matchAllTimeTags line
      in if text = [] then []
         else if tags = [] then [\<lparr> time = PositiveInfinity, text_field = text \<rparr>]
         else map (\<lambda>tag. \<lparr> time = Seconds (totalSeconds tag), text_field = text \<rparr>) tags)"

text \<open>
  A lyric of five lines: two tags on the first, the same time and text again on the
  second, no tag on the third, nothing on the fourth, a tag without text on the fifth.
\<close>

definition sampleLyric :: jsstring where
  "sampleLyric = js ''[00:03][00:01.5]World'' @ [13, 10] @ js ''[00:01.50]World'' @ [10]
                 @ js ''plain'' @ [10, 10] @ js ''[00:02]  ''"

text \<open>The test of the early return of \<open>ensureTrackResolved\<close>.\<close>

definition alreadyResolved :: "Track \<Rightarrow> BitrateOption \<Rightarrow> bool" where
  "alreadyResolved track br = (truthyOpt (url track) \<and> bitrate track = Some br)"

text \<open>The url call throws or its reply has no non-empty \<open>url\<close>.\<close>

definition urlCallFails :: "env \<Rightarrow> Track \<Rightarrow> jsstring option \<Rightarrow> BitrateOption \<Rightarrow> player \<Rightarrow> bool" where
  "urlCallFails e track tid br s =
     (case fst (callMusicApi e (urlApi e) (urlParams track tid br) s) of
        Inl err \<Rightarrow> True
      | Inr None \<Rightarrow> True
      | Inr (Some d) \<Rightarrow> \<not> truthyOpt (url_url d))"

text \<open>
  The cases in which \<open>ensureTrackResolved\<close> throws, for a track that is not already
  resolved: with a non-empty \<open>trackId\<close>, the url call fails; without one, the keyword is
  empty, or the search call throws, or it returns no item, or the url call for the id of
  the best item fails.
\<close>

definition throwCases :: "env \<Rightarrow> Track \<Rightarrow> BitrateOption \<Rightarrow> player \<Rightarrow> bool" where
  "throwCases e track br s =
     (if truthyOpt (trackId track) then urlCallFails e track (trackId track) br s
      else keywordOf track = []
           \<or> (case callMusicApi e (searchApi e) (searchParams track (keywordOf track)) s of
                 (Inl err, s1) \<Rightarrow> True
               | (Inr None, s1) \<Rightarrow> True
               | (Inr (Some []), s1) \<Rightarrow> True
               | (Inr (Some (r # rs)), s1) \<Rightarrow>
                   urlCallFails e track
                     (map_option (\<lambda>best. idString (item_id best))
                        (selectBestSearchResult e (Some (r # rs)) track)) br s1))"

text \<open>
  Where the fields of a resolved track \<open>t\<close> come from: a reply of the url endpoint for
  its track id and the bitrate, of the pic endpoint for its pic id, of the lyric
  endpoint for its lyric id.
\<close>

definition urlFromEndpoint :: "env \<Rightarrow> Track \<Rightarrow> BitrateOption \<Rightarrow> Track \<Rightarrow> bool" where
  "urlFromEndpoint e track br t =
     (\<exists>sent d u. urlApi e sent (urlParams track (trackId t) br) = Body (Some d)
        \<and> url_url d = Some u \<and> u \<noteq> [] \<and> url t = Some (sanitizeUrl u))"

definition coverFromEndpoint :: "env \<Rightarrow> Track \<Rightarrow> Track \<Rightarrow> bool" where
  "coverFromEndpoint e track t =
     (\<exists>sent d u p. picId t = Some p \<and> p \<noteq> [] \<and> picApi e sent (picParams track p) = Body (Some d)
        \<and> pic_url d = Some u \<and> trim u \<noteq> [] \<and> cover t = Val u)"

definition lyricFromEndpoint :: "env \<Rightarrow> Track \<Rightarrow> Track \<Rightarrow> bool" where
  "lyricFromEndpoint e track t =
     (\<exists>sent d q. lyricId t = Some q \<and> q \<noteq> []
        \<and> lyricApi e sent (lyricParams track q) = Body (Some d)
        \<and> nonBlank (resp_lyric d) \<and> lyric t = resp_lyric d)"

definition tLyricFromEndpoint :: "env \<Rightarrow> Track \<Rightarrow> Track \<Rightarrow> bool" where
  "tLyricFromEndpoint e track t =
     (\<exists>sent d q. lyricId t = Some q \<and> q \<noteq> []
        \<and> lyricApi e sent (lyricParams track q) = Body (Some d)
        \<and> nonBlank (resp_tlyric d) \<and> tLyric t = resp_tlyric d)"

text \<open>
  The third track of the catalog with an empty url, and with a url; a world whose pic and
  lyric endpoints fail; a world whose url endpoint answers with an empty url.
\<close>

definition blankUrlTrack :: Track where
  "blankUrlTrack = cageTrack\<lparr> url := Some [] \<rparr>"

definition playableTrack :: Track where
  "playableTrack = cageTrack\<lparr> url := Some (js ''https://cdn.example/a.mp3'') \<rparr>"

definition noCoverEnv :: env where
  "noCoverEnv = sampleEnv\<lparr> picApi := (\<lambda>sent ps. HttpNotOk),
                            lyricApi := (\<lambda>sent ps. FetchRejected) \<rparr>"

definition emptyUrlEnv :: env where
  "emptyUrlEnv =
     sampleEnv\<lparr> urlApi := (\<lambda>sent ps. Body (Some \<lparr> url_url = Some [], url_br = None,
                                                      url_size = None \<rparr>)) \<rparr>"

text \<open>
  The text of a time tag with the groups \<open>g\<close>: \<open>[\<close>, minutes, \<open>:\<close>, seconds, an optional
  \<open>.\<close> and fraction, \<open>]\<close>.
\<close>

definition tagText :: "time_tag \<Rightarrow> jsstring" where
  "tagText g =
     (case g of (m1, m2, m3) \<Rightarrow>
        [91] @ m1 @ [58] @ m2 @ (case m3 of None \<Rightarrow> [] | Some f \<Rightarrow> 46 # f) @ [93])"

text \<open>
  \<open>s\<close> starts with a time tag of groups \<open>g\<close> and length \<open>n\<close>: one or two digits of minutes,
  one or two digits of seconds, and, when there is a fraction, one to three digits.
\<close>

definition timeTagAt :: "jsstring \<Rightarrow> time_tag \<Rightarrow> nat \<Rightarrow> bool" where
  "timeTagAt s g n =
     (case g of (m1, m2, m3) \<Rightarrow>
        m1 \<noteq> [] \<and> length m1 \<le> 2 \<and> list_all isDigit m1
        \<and> m2 \<noteq> [] \<and> length m2 \<le> 2 \<and> list_all isDigit m2
        \<and> (case m3 of None \<Rightarrow> True
            | Some f \<Rightarrow> f \<noteq> [] \<and> length f \<le> 3 \<and> list_all isDigit f)
        \<and> n = length (tagText g) \<and> take n s = tagText g)"

text \<open>
  The call \<open>playSong(index)\<close>, once past its two guards, has a track to play: the track at
  \<open>index\<close> already has a non-empty url at the selected bitrate, or \<open>ensureTrackResolved\<close>
  returns for it.
\<close>

definition playSongResolves :: "env \<Rightarrow> int \<Rightarrow> player \<Rightarrow> bool" where
  "playSongResolves e index s =
     (case playSong_begin index True s of
        (None, s1) \<Rightarrow> True
      | (Some (requestId, baseTrack), s1) \<Rightarrow>
          \<not> isl (fst (ensureTrackResolved e baseTrack (selectedBitrate s) s1)))"

section \<open>Properties of createTrack\<close>

text \<open>
  C10 as stated fails: a descriptor that carries a \<open>picId\<close> equal to the empty string
  gets the cover \<open>null\<close>, not \<open>undefined\<close>, because the test is on truthiness.
\<close>

theorem createTrack_empty_picId_counterexample:
  "picId emptyPicTrack \<noteq> None \<and> cover (createTrack emptyPicTrack) = Null"
  by (simp add: emptyPicTrack_def createTrack_def truthyOpt_def truthy_def)

text \<open>
  C10 (amended): \<open>createTrack\<close> keeps every descriptor field, leaves \<open>url\<close> undefined,
  sets \<open>lyric\<close>, \<open>tLyric\<close> and \<open>fileSizeKb\<close> to \<open>null\<close>, and sets \<open>cover\<close> to
  \<open>undefined\<close> exactly when the descriptor has a non-empty \<open>picId\<close>, to \<open>null\<close> otherwise.
\<close>

theorem createTrack_fields:
  "descriptor (createTrack t) = t
   \<and> url (createTrack t) = None
   \<and> lyric (createTrack t) = Null
   \<and> tLyric (createTrack t) = Null
   \<and> fileSizeKb (createTrack t) = Null
   \<and> (cover (createTrack t) = Undefined) = (\<exists>p. picId t = Some p \<and> p \<noteq> [])
   \<and> (cover (createTrack t) = Null) = (\<not> (\<exists>p. picId t = Some p \<and> p \<noteq> []))"
  by (cases "picId t") (simp_all add: createTrack_def descriptor_def truthyOpt_def truthy_def)

theorem createTrack_fields_witness:
  "descriptor (createTrack emptyPicTrack) = emptyPicTrack
   \<and> url (createTrack emptyPicTrack) = None
   \<and> cover (createTrack emptyPicTrack) \<noteq> Undefined
   \<and> cover (createTrack (emptyPicTrack\<lparr> picId := Some (js ''p1'') \<rparr>)) = Undefined"
  using createTrack_fields [of emptyPicTrack]
    createTrack_fields [of "emptyPicTrack\<lparr> picId := Some (js ''p1'') \<rparr>"]
  by (simp add: emptyPicTrack_def js_def)

section \<open>Evaluation\<close>

lemma replicate_numeral_Cons: "replicate (numeral k) x = x # replicate (pred_numeral k) x"
  by (simp add: numeral_eq_Suc)

section \<open>Properties of the API route\<close>

text \<open>
  C7: whatever the request (method, headers, body), the handler answers with status 200
  and the catalog \<open>LOCAL_TRACKS\<close> as body; it has no other outcome.
\<close>

theorem handler_serves_catalog:
  "statusCode (handler req) = 200 \<and> jsonBody (handler req) = LOCAL_TRACKS
   \<and> handler req = handler req'"
  by (simp add: handler_def)

section \<open>Properties of the rate limiter\<close>

lemma length_filter_mono:
  "(\<And>x. x \<in> set xs \<Longrightarrow> P x \<Longrightarrow> Q x) \<Longrightarrow> length (filter P xs) \<le> length (filter Q xs)"
  by (induction xs) auto

text \<open>
  The invariant of a run with a clock that never goes back: the stored list is the part
  of the admitted times \<open>past\<close> that lies in the window ending at the last reading, and
  no window holds more than the maximum of admitted times.
\<close>

lemma admitted_window_invariant:
  assumes "sorted (lastNow # nows)"
    and "ts = filter (\<lambda>t. lastNow - RATE_LIMIT_WINDOW_MS \<le> t) past"
    and "\<forall>t \<in> set past. t \<le> lastNow"
    and "\<forall>a. length (filter (inWindow a) past) \<le> RATE_LIMIT_MAX_REQUESTS"
  shows "length (filter (inWindow a) (past @ admitted ts nows)) \<le> RATE_LIMIT_MAX_REQUESTS"
  using assms
proof (induction nows arbitrary: ts past lastNow)
  case Nil
  then show ?case by simp
next
  case (Cons now nows)
  let ?W = RATE_LIMIT_WINDOW_MS
  let ?kept = "filter (\<lambda>t. now - ?W \<le> t) ts"
  have le: "lastNow \<le> now" using Cons.prems(1) by simp
  have sorted': "sorted (now # nows)" using Cons.prems(1) by simp
  have kept: "?kept = filter (\<lambda>t. now - ?W \<le> t) past"
    using Cons.prems(2) le by (auto intro: filter_cong)
  show ?case
  proof (cases "length ?kept \<ge> RATE_LIMIT_MAX_REQUESTS")
    case True
    then have step: "admitted ts (now # nows) = admitted ?kept nows"
      by (simp add: registerRequest_def Let_def)
    have "length (filter (inWindow a) (past @ admitted ?kept nows)) \<le> RATE_LIMIT_MAX_REQUESTS"
      using Cons.IH [OF sorted' kept _ Cons.prems(4)] Cons.prems(3) le by fastforce
    then show ?thesis using step by simp
  next
    case False
    then have step: "admitted ts (now # nows) = now # admitted (?kept @ [now]) nows"
      by (simp add: registerRequest_def Let_def)
    have W: "0 \<le> ?W" by (simp add: RATE_LIMIT_WINDOW_MS_def)
    have ts': "?kept @ [now] = filter (\<lambda>t. now - ?W \<le> t) (past @ [now])"
      using kept W by simp
    have bound': "\<forall>t \<in> set (past @ [now]). t \<le> now"
      using Cons.prems(3) le by fastforce
    have win': "\<forall>b. length (filter (inWindow b) (past @ [now])) \<le> RATE_LIMIT_MAX_REQUESTS"
    proof
      fix b
      show "length (filter (inWindow b) (past @ [now])) \<le> RATE_LIMIT_MAX_REQUESTS"
      proof (cases "inWindow b now")
        case True
        have "length (filter (inWindow b) past) \<le> length (filter (\<lambda>t. now - ?W \<le> t) past)"
          using True by (intro length_filter_mono) (auto simp: inWindow_def)
        also have "\<dots> < RATE_LIMIT_MAX_REQUESTS" using False kept by simp
        finally show ?thesis using True by simp
      next
        case False
        then show ?thesis using Cons.prems(4) by simp
      qed
    qed
    have "length (filter (inWindow a) ((past @ [now]) @ admitted (?kept @ [now]) nows))
            \<le> RATE_LIMIT_MAX_REQUESTS"
      by (rule Cons.IH [OF sorted' ts' bound' win'])
    then show ?thesis using step by simp
  qed
qed

lemma admitted_window:
  assumes "sorted nows"
  shows "length (filter (inWindow a) (admitted [] nows)) \<le> RATE_LIMIT_MAX_REQUESTS"
proof (cases nows)
  case Nil
  then show ?thesis by simp
next
  case (Cons n ns)
  have "sorted (n # nows)" using assms Cons by simp
  from admitted_window_invariant [OF this, of "[]" "[]" a] show ?thesis by simp
qed

lemma callMusicApi_log:
  "fetchLog (snd (callMusicApi e endpoint ps s)) =
     (if fst (registerRequest (dateNow e (clockReads s)) (requestTimestampsRef s)) = None
      then fetchLog s @ [ps] else fetchLog s)"
  by (simp add: callMusicApi_def Let_def split: prod.splits option.splits fetch_outcome.splits)

lemma callMusicApi_timestamps:
  "requestTimestampsRef (snd (callMusicApi e endpoint ps s)) =
     snd (registerRequest (dateNow e (clockReads s)) (requestTimestampsRef s))"
  by (simp add: callMusicApi_def Let_def split: prod.splits option.splits fetch_outcome.splits)

lemma callMusicApi_limited:
  "fst (registerRequest (dateNow e (clockReads s)) (requestTimestampsRef s)) \<noteq> None
   \<Longrightarrow> fst (callMusicApi e endpoint ps s) = Inl TooManyRequests"
  by (auto simp: callMusicApi_def registerRequest_def Let_def split: if_splits)

text \<open>
  C3: \<open>registerRequest\<close> throws exactly when at least 60 of the recorded timestamps are
  not older than 300000 ms; otherwise it appends the current timestamp to the kept ones.
  \<open>callMusicApi\<close> sends a request only when \<open>registerRequest\<close> has not thrown, and
  stores the list \<open>registerRequest\<close> leaves. Starting from the empty list, with a clock
  that never goes back, at most 60 calls are admitted with timestamps in any interval
  \<open>[a, a + 300000]\<close>.
\<close>

theorem registerRequest_rate_limit:
  "(fst (registerRequest now ts) \<noteq> None)
     = (60 \<le> length (filter (\<lambda>t. now - 300000 \<le> t) ts))
   \<and> (fst (registerRequest now ts) = None \<or> fst (registerRequest now ts) = Some TooManyRequests)
   \<and> snd (registerRequest now ts) =
       (if fst (registerRequest now ts) = None then filter (\<lambda>t. now - 300000 \<le> t) ts @ [now]
        else filter (\<lambda>t. now - 300000 \<le> t) ts)
   \<and> requestTimestampsRef (snd (callMusicApi e endpoint ps s)) =
       snd (registerRequest (dateNow e (clockReads s)) (requestTimestampsRef s))
   \<and> fetchLog (snd (callMusicApi e endpoint ps s)) =
       (if fst (registerRequest (dateNow e (clockReads s)) (requestTimestampsRef s)) = None
        then fetchLog s @ [ps] else fetchLog s)
   \<and> (fst (registerRequest (dateNow e (clockReads s)) (requestTimestampsRef s)) \<noteq> None
        \<longrightarrow> fst (callMusicApi e endpoint ps s) = Inl TooManyRequests)
   \<and> (sorted nows
        \<longrightarrow> length (filter (\<lambda>t. a \<le> t \<and> t \<le> a + 300000) (admitted [] nows)) \<le> 60)"
proof -
  have window: "sorted nows \<Longrightarrow>
      length (filter (\<lambda>t. a \<le> t \<and> t \<le> a + 300000) (admitted [] nows)) \<le> 60"
    using admitted_window [of nows a]
    by (simp add: inWindow_def [abs_def] RATE_LIMIT_WINDOW_MS_def RATE_LIMIT_MAX_REQUESTS_def)
  have reg: "(fst (registerRequest now ts) \<noteq> None)
       = (60 \<le> length (filter (\<lambda>t. now - 300000 \<le> t) ts))"
    "fst (registerRequest now ts) = None \<or> fst (registerRequest now ts) = Some TooManyRequests"
    "snd (registerRequest now ts) =
       (if fst (registerRequest now ts) = None then filter (\<lambda>t. now - 300000 \<le> t) ts @ [now]
        else filter (\<lambda>t. now - 300000 \<le> t) ts)"
    by (simp_all add: registerRequest_def RATE_LIMIT_WINDOW_MS_def RATE_LIMIT_MAX_REQUESTS_def
          Let_def)
  show ?thesis
    using window reg callMusicApi_log [of e endpoint ps s]
      callMusicApi_timestamps [of e endpoint ps s] callMusicApi_limited [of e s endpoint ps]
    by blast
qed

theorem registerRequest_rate_limit_witness:
  "sorted (replicate 61 (0::int))
   \<and> admitted [] (replicate 61 0) = replicate 60 0
   \<and> length (filter (\<lambda>t. 0 \<le> t \<and> t \<le> 0 + 300000) (admitted [] (replicate 61 0))) \<le> 60
   \<and> fst (registerRequest 0 (replicate 60 0)) = Some TooManyRequests
   \<and> fst (registerRequest 300001 (replicate 60 0)) = None
   \<and> snd (registerRequest 300001 (replicate 60 0)) = [300001]
   \<and> fst (registerRequest (dateNow sampleEnv (clockReads fullPlayer))
             (requestTimestampsRef fullPlayer)) \<noteq> None
   \<and> fst (callMusicApi sampleEnv (urlApi sampleEnv) [] fullPlayer) = Inl TooManyRequests
   \<and> fetchLog (snd (callMusicApi sampleEnv (urlApi sampleEnv) [] fullPlayer)) = []"
  using registerRequest_rate_limit [of 0 "replicate 60 0" sampleEnv "urlApi sampleEnv" "[]" fullPlayer
      "replicate 61 0" 0]
    registerRequest_rate_limit [of 300001 "replicate 60 0" sampleEnv "urlApi sampleEnv" "[]" fullPlayer
      "replicate 61 0" 0]
  by (simp add: registerRequest_def RATE_LIMIT_WINDOW_MS_def RATE_LIMIT_MAX_REQUESTS_def Let_def
        replicate_numeral_Cons fullPlayer_def initialPlayer_def sampleEnv_def)

section \<open>Properties of stale requests\<close>

text \<open>
  C4: when \<open>playSong\<close> resumes after its \<open>await\<close> and \<open>playRequestIdRef\<close> no longer
  holds the id it captured, it changes nothing of the state: not the current song index,
  the cover, the progress, the error message or the loading index. When \<open>performSearch\<close>
  resumes and \<open>searchRequestIdRef\<close> no longer holds its id, it changes nothing either:
  not the track lists, the current index, the error message, the pagination or the
  searching flag. \<open>resetPlayer\<close> and every \<open>playSong\<close> that gets past its guards
  increment \<open>playRequestIdRef\<close>, which makes the earlier invocations stale.
\<close>

theorem stale_requests_change_nothing:
  "(playRequestIdRef s \<noteq> requestId
      \<longrightarrow> playSong_resume requestId index autoplay outcome s = s)
   \<and> (searchRequestIdRef s \<noteq> f_requestId f
      \<longrightarrow> performSearch_resume f searchOutcome s = s)
   \<and> playRequestIdRef (resetPlayer s) = playRequestIdRef s + 1
   \<and> (fst (playSong_begin index' autoplay' s) = Some (requestId', baseTrack)
      \<longrightarrow> requestId' = playRequestIdRef s + 1
          \<and> playRequestIdRef (snd (playSong_begin index' autoplay' s)) = requestId')"
proof -
  have a: "playRequestIdRef s \<noteq> requestId
      \<Longrightarrow> playSong_resume requestId index autoplay outcome s = s"
    by (simp add: playSong_resume_def split: sum.splits)
  have b: "searchRequestIdRef s \<noteq> f_requestId f
      \<Longrightarrow> performSearch_resume f searchOutcome s = s"
    by (simp add: performSearch_resume_def Let_def split: sum.splits)
  have c: "playRequestIdRef (resetPlayer s) = playRequestIdRef s + 1"
    by (simp add: resetPlayer_def)
  have d: "fst (playSong_begin index' autoplay' s) = Some (requestId', baseTrack)
      \<Longrightarrow> requestId' = playRequestIdRef s + 1
          \<and> playRequestIdRef (snd (playSong_begin index' autoplay' s)) = requestId'"
    by (auto simp: playSong_begin_def Let_def updateTrackInStates_def split: if_splits)
  show ?thesis using a b c d by blast
qed

theorem stale_requests_change_nothing_witness:
  "playRequestIdRef overtakenPlayer \<noteq> 1
   \<and> playSong_resume 1 0 True (Inl NoPlayUrl) overtakenPlayer = overtakenPlayer
   \<and> searchRequestIdRef overtakenPlayer \<noteq> f_requestId staleFrame
   \<and> performSearch_resume staleFrame (Inr (Some [])) overtakenPlayer = overtakenPlayer
   \<and> fst (playSong_begin 0 True initialPlayer)
        = Some (1, snd (the (fst (playSong_begin 0 True initialPlayer))))
   \<and> playRequestIdRef (snd (playSong_begin 0 True initialPlayer)) = 1
   \<and> playRequestIdRef (resetPlayer (snd (playSong_begin 0 True initialPlayer))) = 2"
proof -
  define B where "B = playSong_begin 0 True initialPlayer"
  have a: "playRequestIdRef overtakenPlayer \<noteq> 1"
    "searchRequestIdRef overtakenPlayer \<noteq> f_requestId staleFrame"
    by (simp_all add: overtakenPlayer_def staleFrame_def)
  have b: "fst B = Some (1, snd (the (fst B)))"
    unfolding B_def
    by (simp add: playSong_begin_def initialPlayer_def INITIAL_SOURCE_TRACKS_def
        INITIAL_TRACKS_def LOCAL_TRACKS_def createTrack_def DEFAULT_SOURCE_def Let_def
        truthyOpt_def)
  note inst = stale_requests_change_nothing [of overtakenPlayer 1 0 True "Inl NoPlayUrl"
      staleFrame "Inr (Some [])" 0 True 1 "snd (the (fst B))"]
  note inst2 = stale_requests_change_nothing [of initialPlayer 1 0 True "Inl NoPlayUrl"
      staleFrame "Inr (Some [])" 0 True 1 "snd (the (fst B))"]
  note inst3 = stale_requests_change_nothing [of "snd B" 1 0 True "Inl NoPlayUrl"
      staleFrame "Inr (Some [])" 0 True 1 "snd (the (fst B))"]
  have c: "playSong_resume 1 0 True (Inl NoPlayUrl) overtakenPlayer = overtakenPlayer"
    "performSearch_resume staleFrame (Inr (Some [])) overtakenPlayer = overtakenPlayer"
    using inst a by blast+
  have d: "playRequestIdRef (snd B) = 1"
    using inst2 b unfolding B_def by blast
  have e: "playRequestIdRef (resetPlayer (snd B)) = 2"
    using inst3 d by simp
  show ?thesis
    using a b c d e unfolding B_def by blast
qed

section \<open>Properties of selectBestSearchResult\<close>

lemma includesStr_iff: "includesStr s sub = nameContains s sub"
proof (induction s)
  case Nil
  then show ?case by (auto simp: nameContains_def)
next
  case (Cons c cs)
  show ?case
  proof
    assume "includesStr (c # cs) sub"
    then consider "take (length sub) (c # cs) = sub" | "includesStr cs sub" by auto
    then show "nameContains (c # cs) sub"
    proof cases
      case 1
      then have "c # cs = [] @ sub @ drop (length sub) (c # cs)"
        by (metis append_Nil append_take_drop_id)
      then show ?thesis unfolding nameContains_def by blast
    next
      case 2
      then obtain p q where "cs = p @ sub @ q" using Cons.IH by (auto simp: nameContains_def)
      then have "c # cs = (c # p) @ sub @ q" by simp
      then show ?thesis unfolding nameContains_def by blast
    qed
  next
    assume "nameContains (c # cs) sub"
    then obtain p q where pq: "c # cs = p @ sub @ q" by (auto simp: nameContains_def)
    show "includesStr (c # cs) sub"
    proof (cases p)
      case Nil
      then have "take (length sub) (c # cs) = sub" using pq by simp
      then show ?thesis by simp
    next
      case (Cons a p')
      then have "cs = p' @ sub @ q" using pq by simp
      then have "includesStr cs sub" using Cons.IH by (auto simp: nameContains_def)
      then show ?thesis by simp
    qed
  qed
qed

lemma sourceName_truthy: "truthy (sourceName src)"
  by (cases src) (simp_all add: sourceName_def truthy_def js_def)

lemma itemScore_claimedScore:
  "itemScore e (normalizeText e (Some (name target)))
     (collectArtistTokens e (map_option ArtistName (artist target))) target item
   = claimedScore e target item"
proof -
  have src: "(truthyOpt (item_source item) \<and> item_source item = Some (sourceName (source target)))
      = (item_source item = Some (sourceName (source target)))"
    using sourceName_truthy [of "source target"] by (auto simp: truthyOpt_def)
  have hit: "(0 < length ta \<and> 0 < length ia \<and> list_ex (\<lambda>token. token \<in> set ta) ia)
      = (\<exists>token \<in> set ia. token \<in> set ta)" for ta ia :: "jsstring list"
    by (auto simp: list_ex_iff)
  show ?thesis
    unfolding itemScore_def claimedScore_def Let_def src includesStr_iff truthy_def
    using hit [of "collectArtistTokens e (map_option ArtistName (artist target))"
        "collectArtistTokens e (item_artist item)"]
    by auto
qed

lemma loopSpec_keep:
  "R = (best, Some b, bi) \<Longrightarrow> \<forall>x \<in> set xs. sc x \<le> b \<Longrightarrow> loopSpec sc xs index best b bi R"
  by (simp add: loopSpec_def)

lemma loopSpec_found:
  "xs = ys @ fst R # zs \<Longrightarrow> snd R = (Some (sc (fst R)), index + length ys) \<Longrightarrow> b < sc (fst R)
   \<Longrightarrow> \<forall>y \<in> set ys. sc y < sc (fst R) \<Longrightarrow> \<forall>z \<in> set zs. sc z \<le> sc (fst R)
   \<Longrightarrow> loopSpec sc xs index best b bi R"
  unfolding loopSpec_def by blast

lemma loopSpec_cases:
  assumes "loopSpec sc xs index best b bi R"
  obtains (keep) "R = (best, Some b, bi)" "\<forall>x \<in> set xs. sc x \<le> b"
  | (found) ys zs where "xs = ys @ fst R # zs" "snd R = (Some (sc (fst R)), index + length ys)"
      "b < sc (fst R)" "\<forall>y \<in> set ys. sc y < sc (fst R)" "\<forall>z \<in> set zs. sc z \<le> sc (fst R)"
  using assms unfolding loopSpec_def by blast

lemma forEachResult_decomp:
  "bestIndex < index
   \<Longrightarrow> loopSpec sc xs index best b bestIndex (forEachResult sc xs index (best, Some b, bestIndex))"
proof (induction xs arbitrary: best b bestIndex index)
  case Nil
  then show ?case by (simp add: loopSpec_def)
next
  case (Cons x xs)
  show ?case
  proof (cases "sc x > b")
    case True
    let ?R = "forEachResult sc xs (index + 1) (x, Some (sc x), index)"
    have step: "forEachResult sc (x # xs) index (best, Some b, bestIndex) = ?R"
      using True by (simp add: Let_def)
    have "loopSpec sc xs (index + 1) x (sc x) index ?R"
      by (rule Cons.IH) simp
    then have "loopSpec sc (x # xs) index best b bestIndex ?R"
    proof (cases rule: loopSpec_cases)
      case keep
      show ?thesis
      proof (rule loopSpec_found [where ys = "[]" and zs = xs])
        show "x # xs = [] @ fst ?R # xs" using keep(1) by simp
        show "snd ?R = (Some (sc (fst ?R)), index + length ([] :: SearchApiItem list))"
          using keep(1) by simp
        show "b < sc (fst ?R)" using keep(1) True by simp
        show "\<forall>y \<in> set []. sc y < sc (fst ?R)" by simp
        show "\<forall>z \<in> set xs. sc z \<le> sc (fst ?R)" using keep by simp
      qed
    next
      case (found ys zs)
      show ?thesis
      proof (rule loopSpec_found [where ys = "x # ys" and zs = zs])
        show "x # xs = (x # ys) @ fst ?R # zs" using found(1) by simp
        show "snd ?R = (Some (sc (fst ?R)), index + length (x # ys))" using found(2) by simp
        show "b < sc (fst ?R)" using found(3) True by simp
        show "\<forall>y \<in> set (x # ys). sc y < sc (fst ?R)" using found(3,4) by simp
        show "\<forall>z \<in> set zs. sc z \<le> sc (fst ?R)" using found(5) .
      qed
    qed
    then show ?thesis using step by simp
  next
    case False
    let ?R = "forEachResult sc xs (index + 1) (best, Some b, bestIndex)"
    have step: "forEachResult sc (x # xs) index (best, Some b, bestIndex) = ?R"
      using False Cons.prems by (simp add: Let_def)
    have "loopSpec sc xs (index + 1) best b bestIndex ?R"
      by (rule Cons.IH) (use Cons.prems in simp)
    then have "loopSpec sc (x # xs) index best b bestIndex ?R"
    proof (cases rule: loopSpec_cases)
      case keep
      show ?thesis
        by (rule loopSpec_keep) (use keep False in simp_all)
    next
      case (found ys zs)
      show ?thesis
      proof (rule loopSpec_found [where ys = "x # ys" and zs = zs])
        show "x # xs = (x # ys) @ fst ?R # zs" using found(1) by simp
        show "snd ?R = (Some (sc (fst ?R)), index + length (x # ys))" using found(2) by simp
        show "b < sc (fst ?R)" using found(3) .
        show "\<forall>y \<in> set (x # ys). sc y < sc (fst ?R)" using found(3,4) False by simp
        show "\<forall>z \<in> set zs. sc z \<le> sc (fst ?R)" using found(5) .
      qed
    qed
    then show ?thesis using step by simp
  qed
qed

text \<open>The loop from its initial state returns the first item of maximal score.\<close>

lemma forEachResult_first_max:
  "\<exists>ys zs. r0 # rs = ys @ fst (forEachResult sc (r0 # rs) 0 (r0, None, 0)) # zs
      \<and> (\<forall>y \<in> set ys. sc y < sc (fst (forEachResult sc (r0 # rs) 0 (r0, None, 0))))
      \<and> (\<forall>z \<in> set zs. sc z \<le> sc (fst (forEachResult sc (r0 # rs) 0 (r0, None, 0))))"
proof -
  let ?R = "forEachResult sc rs 1 (r0, Some (sc r0), 0)"
  have step: "forEachResult sc (r0 # rs) 0 (r0, None, 0) = ?R"
    by (simp add: Let_def)
  have "loopSpec sc rs 1 r0 (sc r0) 0 ?R"
    by (rule forEachResult_decomp) simp
  then have "\<exists>ys zs. r0 # rs = ys @ fst ?R # zs
      \<and> (\<forall>y \<in> set ys. sc y < sc (fst ?R)) \<and> (\<forall>z \<in> set zs. sc z \<le> sc (fst ?R))"
  proof (cases rule: loopSpec_cases)
    case keep
    have "r0 # rs = [] @ fst ?R # rs \<and> (\<forall>y \<in> set []. sc y < sc (fst ?R))
        \<and> (\<forall>z \<in> set rs. sc z \<le> sc (fst ?R))"
      using keep by simp
    then show ?thesis by blast
  next
    case (found ys zs)
    have "r0 # rs = (r0 # ys) @ fst ?R # zs \<and> (\<forall>y \<in> set (r0 # ys). sc y < sc (fst ?R))
        \<and> (\<forall>z \<in> set zs. sc z \<le> sc (fst ?R))"
      using found by simp
    then show ?thesis by blast
  qed
  then show ?thesis unfolding step .
qed

text \<open>
  C1 (amended): for a null or empty list \<open>selectBestSearchResult\<close> returns null; for a
  non-empty list it returns an element of the list of maximal score, the one of lowest
  index among those, where an item scores 4 if the target's normalized name is not empty
  and equals the item's, else 2 if it is not empty and the item's normalized name contains
  it; plus 4 if one of its normalized artist tokens is one of the target's; plus 1 if its
  source is the target's.
\<close>

theorem selectBestSearchResult_first_max:
  "selectBestSearchResult e None target = None
   \<and> selectBestSearchResult e (Some []) target = None
   \<and> (results \<noteq> [] \<longrightarrow>
        (\<exists>i < length results.
           selectBestSearchResult e (Some results) target = Some (results ! i)
           \<and> (\<forall>j < length results.
                 claimedScore e target (results ! j) \<le> claimedScore e target (results ! i))
           \<and> (\<forall>j < i.
                 claimedScore e target (results ! j) < claimedScore e target (results ! i))))"
proof -
  have main: "\<exists>i < length results.
           selectBestSearchResult e (Some results) target = Some (results ! i)
           \<and> (\<forall>j < length results.
                 claimedScore e target (results ! j) \<le> claimedScore e target (results ! i))
           \<and> (\<forall>j < i.
                 claimedScore e target (results ! j) < claimedScore e target (results ! i))"
    if ne: "results \<noteq> []"
  proof -
    obtain r0 rs where res: "results = r0 # rs" using ne by (cases results) auto
    define sc where "sc = itemScore e (normalizeText e (Some (name target)))
                 (collectArtistTokens e (map_option ArtistName (artist target))) target"
    define best where "best = fst (forEachResult sc results 0 (r0, None, 0))"
    have sc: "sc = claimedScore e target"
      unfolding sc_def by (rule ext) (rule itemScore_claimedScore)
    have sel: "selectBestSearchResult e (Some results) target = Some best"
      by (simp add: selectBestSearchResult_def res Let_def best_def sc_def)
    from forEachResult_first_max [of r0 rs sc]
    obtain ys zs where d: "results = ys @ best # zs"
      "\<forall>y \<in> set ys. sc y < sc best" "\<forall>z \<in> set zs. sc z \<le> sc best"
      unfolding res [symmetric] best_def [symmetric] by blast
    have len: "length ys < length results" using d(1) by simp
    have nth: "results ! length ys = best" using d(1) by simp
    have before: "sc (results ! j) < sc best" if "j < length ys" for j
    proof -
      have "results ! j = ys ! j" using that d(1) by (simp add: nth_append)
      then have "results ! j \<in> set ys" using that by simp
      then show ?thesis using d(2) by simp
    qed
    have all: "sc (results ! j) \<le> sc best" if "j < length results" for j
    proof -
      have "results ! j \<in> set results" using that by simp
      then have "results ! j \<in> set ys \<or> results ! j = best \<or> results ! j \<in> set zs"
        using d(1) by auto
      then show ?thesis using d(2,3) by (auto simp: less_imp_le)
    qed
    show ?thesis
    proof (intro exI conjI)
      show "length ys < length results" by (rule len)
      show "selectBestSearchResult e (Some results) target = Some (results ! length ys)"
        using sel nth by simp
      show "\<forall>j < length results.
          claimedScore e target (results ! j) \<le> claimedScore e target (results ! length ys)"
        using all nth sc by simp
      show "\<forall>j < length ys.
          claimedScore e target (results ! j) < claimedScore e target (results ! length ys)"
        using before nth sc by simp
    qed
  qed
  have "selectBestSearchResult e None target = None"
    "selectBestSearchResult e (Some []) target = None"
    by (simp_all add: selectBestSearchResult_def)
  then show ?thesis using main by blast
qed

lemmas search_eval = selectBestSearchResult_def itemScore_def normalizeText_def
  collectArtistTokens_def sampleEnv_def asciiToLowerCase_def isSeparator_def isWhiteSpace_def
  matchArtistSeparator_def ciPrefix_def js_def truthy_def truthyOpt_def sourceName_def Let_def
  createTrack_def

theorem selectBestSearchResult_first_max_witness:
  "[otherItem, sampleItem] \<noteq> []
   \<and> selectBestSearchResult sampleEnv (Some [otherItem, sampleItem]) cageTrack = Some sampleItem
   \<and> (\<exists>i < length [otherItem, sampleItem].
         selectBestSearchResult sampleEnv (Some [otherItem, sampleItem]) cageTrack
           = Some ([otherItem, sampleItem] ! i)
         \<and> (\<forall>j < length [otherItem, sampleItem].
               claimedScore sampleEnv cageTrack ([otherItem, sampleItem] ! j)
                 \<le> claimedScore sampleEnv cageTrack ([otherItem, sampleItem] ! i))
         \<and> (\<forall>j < i.
               claimedScore sampleEnv cageTrack ([otherItem, sampleItem] ! j)
                 < claimedScore sampleEnv cageTrack ([otherItem, sampleItem] ! i)))"
proof -
  have ne: "[otherItem, sampleItem] \<noteq> []" by simp
  have ev: "selectBestSearchResult sampleEnv (Some [otherItem, sampleItem]) cageTrack
      = Some sampleItem"
    by (simp add: search_eval cageTrack_def otherItem_def sampleItem_def LOCAL_TRACKS_def)
  show ?thesis
    using ne ev selectBestSearchResult_first_max [of sampleEnv cageTrack "[otherItem, sampleItem]"]
    by blast
qed

text \<open>
  C1 as stated fails: the target's name \<open>!!!\<close> normalizes to the empty string, so does the
  name of the second item; the claim gives that item 4 points for the equal names and the
  first item 1 point for its source, the program gives the second item nothing and returns
  the first.
\<close>

theorem selectBestSearchResult_empty_name_counterexample:
  "selectBestSearchResult sampleEnv (Some [otherItem, punctItem]) punctTrack = Some otherItem
   \<and> statedScore sampleEnv punctTrack otherItem < statedScore sampleEnv punctTrack punctItem"
  by (simp add: search_eval statedScore_def punctTrack_def otherItem_def punctItem_def)

section \<open>Properties of parseLyricLines\<close>

lemma pushMatches_append:
  "pushMatches text ms result =
     result @ (if text = [] then []
               else map (\<lambda>m. \<lparr> time = Seconds (totalSeconds m), text_field = text \<rparr>) ms)"
  by (induction ms arbitrary: result) simp_all

lemma parseLines_append:
  "parseLines lines result = result @ concat (map claimedEntries lines)"
proof (induction lines arbitrary: result)
  case Nil
  then show ?case by simp
next
  case (Cons line lines)
  show ?case
    by (simp add: Cons.IH claimedEntries_def pushMatches_append Let_def)
qed

lemma LyricLine_eq:
  "(a = b) = (time a = time b \<and> text_field a = text_field b)" for a b :: LyricLine
  by (cases a, cases b) simp

lemma dedupe_snoc:
  "dedupe (acc @ [p]) current = (if p = current then acc @ [p] else acc @ [p, current])"
  by (simp add: dedupe_def LyricLine_eq)

lemma foldl_dedupe_snoc:
  "foldl dedupe (acc @ [p]) xs = acc @ remdups_adj (p # xs)"
proof (induction xs arbitrary: acc p)
  case Nil
  then show ?case by simp
next
  case (Cons x xs)
  show ?case
  proof (cases "p = x")
    case True
    then show ?thesis using Cons.IH [of acc p] by (simp add: dedupe_snoc)
  next
    case False
    then show ?thesis using Cons.IH [of "acc @ [p]" x] by (simp add: dedupe_snoc)
  qed
qed

lemma foldl_dedupe: "foldl dedupe [] xs = remdups_adj xs"
proof (cases xs)
  case Nil
  then show ?thesis by simp
next
  case (Cons x xs')
  have "foldl dedupe [] (x # xs') = foldl dedupe ([] @ [x]) xs'"
    by (simp add: dedupe_def)
  then show ?thesis using foldl_dedupe_snoc [of "[]" x xs'] Cons by simp
qed

lemma sorted_map_remdups_adj:
  "sorted (map f xs) \<Longrightarrow> sorted (map f (remdups_adj xs))"
  by (induction xs rule: remdups_adj.induct) auto

lemma parseLyricLines_Val:
  "parseLyricLines (Val s) =
     remdups_adj (sort_key time (concat (map claimedEntries (splitLines [] s))))"
proof (cases "s = []")
  case True
  then show ?thesis
    by (simp add: parseLyricLines_def truthyNullable_def truthy_def claimedEntries_def trim_def)
next
  case False
  then show ?thesis
    by (simp add: parseLyricLines_def truthyNullable_def truthy_def foldl_dedupe parseLines_append)
qed

lemma parseLyricLines_sorted: "sorted (map time (parseLyricLines l))"
proof (cases l)
  case (Val s)
  show ?thesis unfolding Val parseLyricLines_Val
    by (rule sorted_map_remdups_adj) (rule sorted_sort_key)
qed (simp_all add: parseLyricLines_def truthyNullable_def)

lemma parseLyricLines_distinct_adj: "distinct_adj (parseLyricLines l)"
proof (cases l)
  case (Val s)
  show ?thesis unfolding Val parseLyricLines_Val by simp
qed (simp_all add: parseLyricLines_def truthyNullable_def)

lemma padEnd3_value:
  assumes "f \<noteq> []" "length f \<le> 3"
  shows "parseInt10 (padEnd3 f) = parseInt10 f * 10 ^ (3 - length f)"
proof -
  have "(\<exists>a. f = [a]) \<or> (\<exists>a b. f = [a, b]) \<or> (\<exists>a b c. f = [a, b, c])"
  proof (cases f)
    case Nil
    then show ?thesis using assms by simp
  next
    case f1: (Cons a f1)
    show ?thesis
    proof (cases f1)
      case Nil
      then show ?thesis using f1 by simp
    next
      case f2: (Cons b f2)
      show ?thesis
      proof (cases f2)
        case Nil
        then show ?thesis using f1 f2 by simp
      next
        case (Cons c f3)
        then have "f3 = []" using assms f1 f2 by simp
        then show ?thesis using f1 f2 Cons by simp
      qed
    qed
  qed
  then show ?thesis
    by (auto simp: padEnd3_def parseInt10_def eval_nat_numeral)
qed

subsection \<open>The time tag matcher and the shape of a tag\<close>

lemma takeDigits_prefix:
  "takeDigits k x @ drop (length (takeDigits k x)) x = x"
proof -
  let ?m = "takeWhile isDigit (take k x)"
  have "?m = take (length ?m) (take k x)" by (rule takeWhile_eq_take)
  moreover have "length ?m \<le> k"
    by (rule order_trans [OF length_takeWhile_le]) simp
  ultimately have "?m = take (length ?m) x" by (simp add: min_def)
  then have "?m @ drop (length ?m) x = take (length ?m) x @ drop (length ?m) x" by simp
  then show ?thesis by (simp add: takeDigits_def)
qed

lemma takeDigits_digits: "list_all isDigit (takeDigits k x)"
  by (simp add: takeDigits_def list_all_iff) (meson set_takeWhileD)

lemma takeDigits_length: "length (takeDigits k x) \<le> k"
  unfolding takeDigits_def
  by (rule order_trans [OF length_takeWhile_le]) simp

lemma takeDigits_exact:
  assumes "list_all isDigit m" "length m \<le> k" "\<not> isDigit c"
  shows "takeDigits k (m @ c # r) = m"
proof -
  have "take k (m @ c # r) = m @ take (k - length m) (c # r)"
    using assms(2) by simp
  moreover have "takeWhile isDigit (take (k - length m) (c # r)) = []"
    using assms(3) by (cases "k - length m") simp_all
  ultimately show ?thesis
    using assms(1) by (simp add: takeDigits_def takeWhile_append2 list_all_iff)
qed

lemma matchTimeTag_sound:
  assumes "matchTimeTag s = Some (g, n)"
  shows "timeTagAt s g n"
proof -
  define m1 where "m1 = takeDigits 2 (drop 1 s)"
  define s1 where "s1 = drop (1 + length m1) s"
  define m2 where "m2 = takeDigits 2 (drop 1 s1)"
  define s2 where "s2 = drop (1 + length m2) s1"
  define m3 where "m3 = takeDigits 3 (drop 1 s2)"
  define s3 where "s3 = drop (1 + length m3) s2"
  have un: "matchTimeTag s =
     (if take 1 s \<noteq> [91] then None
      else if m1 = [] \<or> take 1 s1 \<noteq> [58] then None
      else if m2 = [] then None
      else if take 1 s2 = [93] then Some ((m1, m2, None), length m1 + length m2 + 3)
      else if take 1 s2 \<noteq> [46] then None
      else if m3 = [] \<or> take 1 s3 \<noteq> [93] then None
      else Some ((m1, m2, Some m3), length m1 + length m2 + length m3 + 4))"
    unfolding matchTimeTag_def Let_def m1_def s1_def m2_def s2_def m3_def s3_def
    by (rule refl)
  have open_br: "take 1 s = [91]" and ne1: "m1 \<noteq> []" and colon: "take 1 s1 = [58]"
    and ne2: "m2 \<noteq> []"
    using assms unfolding un by (simp_all split: if_splits)
  obtain r0 where r0: "s = 91 # r0" using open_br by (cases s) auto
  have m1r: "m1 = takeDigits 2 r0" by (simp add: m1_def r0)
  have s1r: "s1 = drop (length m1) r0" by (simp add: s1_def r0)
  have p1: "r0 = m1 @ s1"
    unfolding s1r m1r by (rule takeDigits_prefix [symmetric])
  obtain r1 where r1: "s1 = 58 # r1" using colon by (cases s1) auto
  have m2r: "m2 = takeDigits 2 r1" by (simp add: m2_def r1)
  have s2r: "s2 = drop (length m2) r1" by (simp add: s2_def r1)
  have p2: "r1 = m2 @ s2"
    unfolding s2r m2r by (rule takeDigits_prefix [symmetric])
  have s_eq: "s = [91] @ m1 @ [58] @ m2 @ s2" using r0 p1 r1 p2 by simp
  have d1: "list_all isDigit m1" "length m1 \<le> 2"
    unfolding m1_def by (rule takeDigits_digits, rule takeDigits_length)
  have d2: "list_all isDigit m2" "length m2 \<le> 2"
    unfolding m2_def by (rule takeDigits_digits, rule takeDigits_length)
  show ?thesis
  proof (cases "take 1 s2 = [93]")
    case True
    then obtain r2 where r2: "s2 = 93 # r2" by (cases s2) auto
    have g: "g = (m1, m2, None)" "n = length m1 + length m2 + 3"
      using assms True open_br ne1 colon ne2 unfolding un by simp_all
    have whole: "s = tagText g @ r2"
      unfolding g tagText_def s_eq r2 by simp
    have len: "n = length (tagText g)"
      unfolding g tagText_def by simp
    have "take n s = tagText g"
      unfolding len by (subst whole) simp
    then show ?thesis
      using ne1 ne2 d1 d2 len unfolding g(1) timeTagAt_def by simp
  next
    case False
    then have dot: "take 1 s2 = [46]" and ne3: "m3 \<noteq> []" and close_br: "take 1 s3 = [93]"
      using assms open_br ne1 colon ne2 unfolding un by (simp_all split: if_splits)
    have g: "g = (m1, m2, Some m3)" "n = length m1 + length m2 + length m3 + 4"
      using assms False open_br ne1 colon ne2 dot ne3 close_br unfolding un by simp_all
    obtain r2 where r2: "s2 = 46 # r2" using dot by (cases s2) auto
    have m3r: "m3 = takeDigits 3 r2" by (simp add: m3_def r2)
    have s3r: "s3 = drop (length m3) r2" by (simp add: s3_def r2)
    have p3: "r2 = m3 @ s3"
      unfolding s3r m3r by (rule takeDigits_prefix [symmetric])
    obtain r3 where r3: "s3 = 93 # r3" using close_br by (cases s3) auto
    have d3: "list_all isDigit m3" "length m3 \<le> 3"
      unfolding m3_def by (rule takeDigits_digits, rule takeDigits_length)
    have whole: "s = tagText g @ r3"
      unfolding g tagText_def s_eq r2 p3 r3 by simp
    have len: "n = length (tagText g)"
      unfolding g tagText_def by simp
    have "take n s = tagText g"
      unfolding len by (subst whole) simp
    then show ?thesis
      using ne1 ne2 ne3 d1 d2 d3 len unfolding g(1) timeTagAt_def by simp
  qed
qed


lemma matchTimeTag_complete:
  assumes "timeTagAt s g n"
  shows "matchTimeTag s = Some (g, n)"
proof -
  obtain m1 m2 m3 where g: "g = (m1, m2, m3)" by (cases g)
  have h: "m1 \<noteq> []" "length m1 \<le> 2" "list_all isDigit m1"
    "m2 \<noteq> []" "length m2 \<le> 2" "list_all isDigit m2"
    "n = length (tagText g)" "take n s = tagText g"
    using assms unfolding g timeTagAt_def by auto
  have "s = take n s @ drop n s" by simp
  then have s_eq: "s = tagText g @ drop n s" using h(8) by simp
  have nd: "\<not> isDigit 58" "\<not> isDigit 93" "\<not> isDigit 46" by (simp_all add: isDigit_def)
  show ?thesis
  proof (cases m3)
    case None
    have s': "s = 91 # m1 @ 58 # m2 @ 93 # drop n s"
      using s_eq unfolding g None tagText_def by simp
    have t1: "takeDigits 2 (m1 @ 58 # m2 @ 93 # drop n s) = m1"
      by (rule takeDigits_exact [OF h(3) h(2) nd(1)])
    have t2: "takeDigits 2 (m2 @ 93 # drop n s) = m2"
      by (rule takeDigits_exact [OF h(6) h(5) nd(2)])
    have "matchTimeTag (91 # m1 @ 58 # m2 @ 93 # drop n s)
        = Some ((m1, m2, None), length m1 + length m2 + 3)"
      using h(1,4) by (simp add: matchTimeTag_def Let_def t1 t2)
    then show ?thesis
      using s' h(7) unfolding g None tagText_def by simp
  next
    case (Some f)
    have hf: "f \<noteq> []" "length f \<le> 3" "list_all isDigit f"
      using assms unfolding g Some timeTagAt_def by simp_all
    have s': "s = 91 # m1 @ 58 # m2 @ 46 # f @ 93 # drop n s"
      using s_eq unfolding g Some tagText_def by simp
    have t1: "takeDigits 2 (m1 @ 58 # m2 @ 46 # f @ 93 # drop n s) = m1"
      by (rule takeDigits_exact [OF h(3) h(2) nd(1)])
    have t2: "takeDigits 2 (m2 @ 46 # f @ 93 # drop n s) = m2"
      by (rule takeDigits_exact [OF h(6) h(5) nd(3)])
    have t3: "takeDigits 3 (f @ 93 # drop n s) = f"
      by (rule takeDigits_exact [OF hf(3) hf(2) nd(2)])
    have "matchTimeTag (91 # m1 @ 58 # m2 @ 46 # f @ 93 # drop n s)
        = Some ((m1, m2, Some f), length m1 + length m2 + length f + 4)"
      using h(1,4) hf(1) by (simp add: matchTimeTag_def Let_def t1 t2 t3)
    then show ?thesis
      using s' h(7) unfolding g Some tagText_def by simp
  qed
qed

lemma matchTimeTag_iff: "(matchTimeTag s = Some (g, n)) = timeTagAt s g n"
  using matchTimeTag_sound matchTimeTag_complete by blast

subsection \<open>The entries\<close>

text \<open>
  C2: for null, undefined or the empty string \<open>parseLyricLines\<close> returns the empty list.
  Otherwise each line gives, when its text (tags stripped, trimmed) is not empty, one
  entry per time tag, or one entry of infinite time when it has no tag; a line of empty
  text gives nothing. The time of a tag is minutes * 60 + seconds + millis / 1000, the
  fraction padded with zeros to three digits; a time tag is an opening bracket, one or
  two digits, a colon, one or two digits, optionally a dot and one to three digits, and a
  closing bracket. The result is these entries stably sorted
  by time, with adjacent equal entries merged: it is sorted by time and no two adjacent
  entries are equal.
\<close>

theorem parseLyricLines_entries:
  "parseLyricLines Undefined = [] \<and> parseLyricLines Null = [] \<and> parseLyricLines (Val []) = []
   \<and> parseLyricLines (Val s) =
        remdups_adj (sort_key time (concat (map claimedEntries (splitLines [] s))))
   \<and> sorted (map time (parseLyricLines l))
   \<and> distinct_adj (parseLyricLines l)
   \<and> totalSeconds (m1, m2, None) = of_nat (parseInt10 m1) * 60 + of_nat (parseInt10 m2)
   \<and> (f \<noteq> [] \<and> length f \<le> 3 \<longrightarrow>
        totalSeconds (m1, m2, Some f) =
          of_nat (parseInt10 m1) * 60 + of_nat (parseInt10 m2)
          + of_nat (parseInt10 f * 10 ^ (3 - length f)) / 1000)
   \<and> (matchTimeTag x = Some (g, n)) = timeTagAt x g n"
proof -
  have empties: "parseLyricLines Undefined = []" "parseLyricLines Null = []"
    "parseLyricLines (Val []) = []"
    by (simp_all add: parseLyricLines_def truthyNullable_def truthy_def)
  have plain: "totalSeconds (m1, m2, None) = of_nat (parseInt10 m1) * 60 + of_nat (parseInt10 m2)"
    by (simp add: totalSeconds_def padEnd3_def parseInt10_def eval_nat_numeral)
  have frac: "f \<noteq> [] \<and> length f \<le> 3 \<longrightarrow>
      totalSeconds (m1, m2, Some f) =
        of_nat (parseInt10 m1) * 60 + of_nat (parseInt10 m2)
        + of_nat (parseInt10 f * 10 ^ (3 - length f)) / 1000"
    using padEnd3_value [of f] by (simp add: totalSeconds_def)
  show ?thesis
    using empties plain frac parseLyricLines_Val [of s] parseLyricLines_sorted [of l]
      parseLyricLines_distinct_adj [of l] matchTimeTag_iff [of x g n]
    by blast
qed

lemmas lyric_eval = parseLyricLines_def truthyNullable_def truthy_def sampleLyric_def js_def
  matchTimeTag_def takeDigits_def isDigit_def trim_def isWhiteSpace_def totalSeconds_def
  parseInt10_def padEnd3_def dedupe_def Let_def less_eq_js_time_def replicate_numeral_Cons

theorem parseLyricLines_entries_witness:
  "js ''5'' \<noteq> [] \<and> length (js ''5'') \<le> 3
   \<and> totalSeconds (js ''00'', js ''01'', Some (js ''5'')) = 3 / 2
   \<and> parseLyricLines (Val sampleLyric) =
        [\<lparr> time = Seconds (3 / 2), text_field = js ''World'' \<rparr>,
         \<lparr> time = Seconds 3, text_field = js ''World'' \<rparr>,
         \<lparr> time = PositiveInfinity, text_field = js ''plain'' \<rparr>]
   \<and> sorted (map time (parseLyricLines (Val sampleLyric)))
   \<and> distinct_adj (parseLyricLines (Val sampleLyric))"
proof -
  note inst = parseLyricLines_entries
    [of sampleLyric "Val sampleLyric" "js ''00''" "js ''01''" "js ''5''" sampleLyric
      "(js ''00'', js ''03'', None)" 7]
  have f: "js ''5'' \<noteq> [] \<and> length (js ''5'') \<le> 3" by (simp add: js_def)
  have imp: "js ''5'' \<noteq> [] \<and> length (js ''5'') \<le> 3 \<longrightarrow>
      totalSeconds (js ''00'', js ''01'', Some (js ''5'')) =
          of_nat (parseInt10 (js ''00'')) * 60 + of_nat (parseInt10 (js ''01''))
          + of_nat (parseInt10 (js ''5'') * 10 ^ (3 - length (js ''5''))) / 1000"
    using inst by (elim conjE) assumption
  have "totalSeconds (js ''00'', js ''01'', Some (js ''5'')) =
          of_nat (parseInt10 (js ''00'')) * 60 + of_nat (parseInt10 (js ''01''))
          + of_nat (parseInt10 (js ''5'') * 10 ^ (3 - length (js ''5''))) / 1000"
    by (rule mp [OF imp f])
  then have t: "totalSeconds (js ''00'', js ''01'', Some (js ''5'')) = 3 / 2"
    by (simp add: js_def parseInt10_def)
  have p: "parseLyricLines (Val sampleLyric) =
        [\<lparr> time = Seconds (3 / 2), text_field = js ''World'' \<rparr>,
         \<lparr> time = Seconds 3, text_field = js ''World'' \<rparr>,
         \<lparr> time = PositiveInfinity, text_field = js ''plain'' \<rparr>]"
    by (simp add: lyric_eval)
  have s: "sorted (map time (parseLyricLines (Val sampleLyric)))"
    using inst by (elim conjE) assumption
  have d: "distinct_adj (parseLyricLines (Val sampleLyric))"
    using inst by (elim conjE) assumption
  show ?thesis
    using f t p s d by (intro conjI) (elim conjE, assumption)+
qed

section \<open>Properties of ensureTrackResolved\<close>

lemma selectBestSearchResult_Some:
  "\<exists>best. selectBestSearchResult e (Some (r # rs)) track = Some best"
  by (simp add: selectBestSearchResult_def Let_def)

lemma selectBestSearchResult_Nil: "selectBestSearchResult e (Some []) track = None"
  by (simp add: selectBestSearchResult_def)

lemma resolveIds_throws:
  "isl (fst (resolveIds e track s)) =
     (\<not> truthyOpt (trackId track)
      \<and> (keywordOf track = []
         \<or> (case callMusicApi e (searchApi e) (searchParams track (keywordOf track)) s of
               (Inl err, s1) \<Rightarrow> True
             | (Inr None, s1) \<Rightarrow> True
             | (Inr (Some []), s1) \<Rightarrow> True
             | (Inr (Some (r # rs)), s1) \<Rightarrow> False)))"
  by (auto simp: resolveIds_def Let_def truthy_def selectBestSearchResult_def
      split: prod.splits sum.splits option.splits list.splits)

lemma resolveIds_direct:
  "truthyOpt (trackId track) \<Longrightarrow>
   resolveIds e track s =
     (Inr \<lparr> r_trackId = trackId track, r_picId = picId track, r_lyricId = lyricId track,
            r_name = name track, r_album = album track, r_artist = artist track \<rparr>, s)"
  by (simp add: resolveIds_def Let_def)

lemma resolveIds_search:
  assumes "\<not> truthyOpt (trackId track)"
    and "resolveIds e track s = (Inr ids, s1)"
  shows "\<exists>r rs. callMusicApi e (searchApi e) (searchParams track (keywordOf track)) s
            = (Inr (Some (r # rs)), s1)
         \<and> r_trackId ids = map_option (\<lambda>best. idString (item_id best))
                              (selectBestSearchResult e (Some (r # rs)) track)"
proof -
  have kw: "truthy (keywordOf track)"
    using assms by (auto simp: resolveIds_def Let_def split: if_splits)
  obtain res s' where call:
    "callMusicApi e (searchApi e) (searchParams track (keywordOf track)) s = (res, s')"
    by (cases "callMusicApi e (searchApi e) (searchParams track (keywordOf track)) s")
  have unfolded: "resolveIds e track s =
      (case res of Inl err \<Rightarrow> (Inl err, s')
       | Inr searchResults \<Rightarrow>
           (case selectBestSearchResult e
                   (Some (case searchResults of Some xs \<Rightarrow> xs | None \<Rightarrow> [])) track of
              None \<Rightarrow> (Inl SongNotFound, s')
            | Some best \<Rightarrow>
                (Inr \<lparr> r_trackId = Some (idString (item_id best)),
                       r_picId = (if truthyOpt (pic_id best) then pic_id best else picId track),
                       r_lyricId = (if truthyOpt (lyric_id best) then lyric_id best
                                    else lyricId track),
                       r_name = (if truthyOpt (item_name best) then the (item_name best)
                                 else name track),
                       r_album = (if truthyOpt (item_album best) then item_album best
                                  else album track),
                       r_artist = (if truthyOpt (artistText (item_artist best))
                                   then artistText (item_artist best)
                                   else artist track) \<rparr>, s')))"
    using assms(1) kw call by (simp add: resolveIds_def Let_def split: sum.splits)
  from assms(2) [unfolded unfolded] obtain searchResults best where
    res: "res = Inr searchResults"
    and best: "selectBestSearchResult e
                   (Some (case searchResults of Some xs \<Rightarrow> xs | None \<Rightarrow> [])) track = Some best"
    and tid: "r_trackId ids = Some (idString (item_id best))" and s': "s' = s1"
    by (auto split: sum.splits option.splits)
  have "(case searchResults of Some xs \<Rightarrow> xs | None \<Rightarrow> []) \<noteq> []"
    using best by (auto simp: selectBestSearchResult_Nil)
  then obtain r rs where sr: "searchResults = Some (r # rs)"
    by (cases searchResults; cases "the searchResults"; simp)
  show ?thesis
    using call res sr best tid s' by simp
qed

lemma ensure_throws:
  "isl (fst (ensureTrackResolved e track br s)) =
     (\<not> alreadyResolved track br
      \<and> (case resolveIds e track s of
            (Inl err, s1) \<Rightarrow> True
          | (Inr ids, s1) \<Rightarrow> urlCallFails e track (r_trackId ids) br s1))"
  by (auto simp: ensureTrackResolved_def alreadyResolved_def urlCallFails_def Let_def truthyOpt_def
      split: prod.splits sum.splits option.splits)

lemma ensure_throws_iff:
  "isl (fst (ensureTrackResolved e track br s)) =
     (\<not> alreadyResolved track br \<and> throwCases e track br s)"
proof (cases "truthyOpt (trackId track)")
  case True
  then show ?thesis
    by (simp add: ensure_throws resolveIds_direct throwCases_def)
next
  case False
  show ?thesis
  proof (cases "resolveIds e track s")
    case (Pair r s1)
    show ?thesis
    proof (cases r)
      case (Inl err)
      then have "isl (fst (resolveIds e track s))" using Pair by simp
      then have "throwCases e track br s"
        using False unfolding resolveIds_throws throwCases_def
        by (auto split: prod.splits sum.splits option.splits list.splits)
      then show ?thesis using Pair Inl by (simp add: ensure_throws)
    next
      case (Inr ids)
      from resolveIds_search [OF False Pair [unfolded Inr]]
      obtain r0 rs where call: "callMusicApi e (searchApi e) (searchParams track (keywordOf track)) s
            = (Inr (Some (r0 # rs)), s1)"
        and tid: "r_trackId ids = map_option (\<lambda>best. idString (item_id best))
                              (selectBestSearchResult e (Some (r0 # rs)) track)"
        by blast
      have "\<not> isl (fst (resolveIds e track s))" using Pair Inr by simp
      then have kw: "keywordOf track \<noteq> []" using False unfolding resolveIds_throws by simp
      have "throwCases e track br s = urlCallFails e track (r_trackId ids) br s1"
        using False kw call tid by (simp add: throwCases_def)
      then show ?thesis using Pair Inr by (simp add: ensure_throws)
    qed
  qed
qed

lemma ensure_already:
  "alreadyResolved track br \<Longrightarrow> ensureTrackResolved e track br s = (Inr track, s)"
  by (simp add: ensureTrackResolved_def alreadyResolved_def)


subsection \<open>The pic and lyric endpoints do not decide the outcome\<close>

lemma normalizeText_env:
  "toLowerCase e' = toLowerCase e \<Longrightarrow> normalizeText e' v = normalizeText e v"
  by (simp add: normalizeText_def split: option.splits)

lemma collectArtistTokens_env:
  "toLowerCase e' = toLowerCase e \<Longrightarrow> collectArtistTokens e' a = collectArtistTokens e a"
  by (simp add: collectArtistTokens_def normalizeText_env [of e' e]
      split: option.splits artist_value.splits)

lemma selectBestSearchResult_env:
  assumes "toLowerCase e' = toLowerCase e"
  shows "selectBestSearchResult e' results track = selectBestSearchResult e results track"
proof -
  have "itemScore e' = itemScore e"
    by (intro ext) (simp add: itemScore_def normalizeText_env [OF assms]
        collectArtistTokens_env [OF assms])
  then show ?thesis
    by (simp add: selectBestSearchResult_def normalizeText_env [OF assms]
        collectArtistTokens_env [OF assms] split: option.splits list.splits)
qed

lemma callMusicApi_env:
  "dateNow e' = dateNow e \<Longrightarrow> callMusicApi e' endpoint ps s = callMusicApi e endpoint ps s"
  by (simp add: callMusicApi_def)

lemma resolveIds_env:
  assumes "toLowerCase e' = toLowerCase e" "dateNow e' = dateNow e" "searchApi e' = searchApi e"
  shows "resolveIds e' track s = resolveIds e track s"
  by (simp add: resolveIds_def callMusicApi_env [OF assms(2)] assms(3)
      selectBestSearchResult_env [OF assms(1)] split: prod.splits sum.splits)

lemma ensure_error_env:
  assumes "toLowerCase e' = toLowerCase e" "dateNow e' = dateNow e" "searchApi e' = searchApi e"
    "urlApi e' = urlApi e"
  shows "(fst (ensureTrackResolved e' track br s) = Inl err)
       = (fst (ensureTrackResolved e track br s) = Inl err)"
  by (auto simp: ensureTrackResolved_def resolveIds_env [OF assms(1,2,3)]
      callMusicApi_env [OF assms(2)] assms(4) Let_def
      split: prod.splits sum.splits option.splits)

subsection \<open>What a call that returns has received\<close>

lemma callMusicApi_Inr:
  "callMusicApi e endpoint ps s = (Inr v, s') \<Longrightarrow> endpoint (fetchLog s) ps = Body v"
  by (auto simp: callMusicApi_def Let_def split: prod.splits option.splits fetch_outcome.splits)

lemma fetchCover_sound:
  "fst (fetchCover e track pid s) = orNull (cover track)
   \<or> (\<exists>sent d u p. pid = Some p \<and> p \<noteq> [] \<and> picApi e sent (picParams track p) = Body (Some d)
         \<and> pic_url d = Some u \<and> trim u \<noteq> [] \<and> fst (fetchCover e track pid s) = Val u)"
proof (cases "truthyOpt pid")
  case False
  then show ?thesis by (simp add: fetchCover_def Let_def)
next
  case True
  then obtain p where p: "pid = Some p" "p \<noteq> []"
    by (cases pid) (auto simp: truthyOpt_def truthy_def)
  obtain r s1 where call: "callMusicApi e (picApi e) (picParams track p) s = (r, s1)"
    by (cases "callMusicApi e (picApi e) (picParams track p) s")
  show ?thesis
  proof (cases "\<exists>d u. r = Inr (Some d) \<and> pic_url d = Some u \<and> trim u \<noteq> []")
    case True
    then obtain d u where du: "r = Inr (Some d)" "pic_url d = Some u" "trim u \<noteq> []" by blast
    have "picApi e (fetchLog s) (picParams track p) = Body (Some d)"
      by (rule callMusicApi_Inr [OF call [unfolded du(1)]])
    moreover have "fst (fetchCover e track pid s) = Val u"
      using p call du by (simp add: fetchCover_def Let_def truthyOpt_def truthy_def)
    ultimately show ?thesis using p du by blast
  next
    case False
    then have "fst (fetchCover e track pid s) = orNull (cover track)"
      using p call
      by (auto simp: fetchCover_def Let_def truthyOpt_def truthy_def
          split: sum.splits option.splits)
    then show ?thesis by simp
  qed
qed

lemma fetchLyric_sound:
  "(fst (fst (fetchLyric e track lid s)) = orNull (lyric track)
    \<or> (\<exists>sent d q. lid = Some q \<and> q \<noteq> [] \<and> lyricApi e sent (lyricParams track q) = Body (Some d)
          \<and> nonBlank (resp_lyric d) \<and> fst (fst (fetchLyric e track lid s)) = resp_lyric d))
   \<and> (snd (fst (fetchLyric e track lid s)) = orNull (tLyric track)
    \<or> (\<exists>sent d q. lid = Some q \<and> q \<noteq> [] \<and> lyricApi e sent (lyricParams track q) = Body (Some d)
          \<and> nonBlank (resp_tlyric d) \<and> snd (fst (fetchLyric e track lid s)) = resp_tlyric d))"
proof (cases "truthyNullable (orNull (lyric track)) \<or> \<not> truthyOpt lid")
  case True
  then show ?thesis by (auto simp: fetchLyric_def Let_def)
next
  case False
  then obtain q where q: "lid = Some q" "q \<noteq> []"
    by (cases lid) (auto simp: truthyOpt_def truthy_def)
  obtain r s1 where call: "callMusicApi e (lyricApi e) (lyricParams track q) s = (r, s1)"
    by (cases "callMusicApi e (lyricApi e) (lyricParams track q) s")
  show ?thesis
  proof (cases "\<exists>d. r = Inr (Some d)")
    case True
    then obtain d where d: "r = Inr (Some d)" by blast
    have reply: "lyricApi e (fetchLog s) (lyricParams track q) = Body (Some d)"
      by (rule callMusicApi_Inr [OF call [unfolded d]])
    have val: "fst (fetchLyric e track lid s) =
        (if nonBlank (resp_lyric d) then resp_lyric d else orNull (lyric track),
         if nonBlank (resp_tlyric d) then resp_tlyric d else orNull (tLyric track))"
      using False q call d by (simp add: fetchLyric_def Let_def truthyOpt_def truthy_def)
    show ?thesis unfolding val using q reply by auto
  next
    case no: False
    have "fst (fetchLyric e track lid s) = (orNull (lyric track), orNull (tLyric track))"
      using False q call no
      by (auto simp: fetchLyric_def Let_def truthyOpt_def truthy_def
          split: sum.splits option.splits)
    then show ?thesis by simp
  qed
qed

text \<open>The fields of a track that \<open>ensureTrackResolved\<close> has resolved.\<close>

lemma ensure_Inr_fields:
  assumes "ensureTrackResolved e track br s = (Inr t, s')" "\<not> alreadyResolved track br"
  shows "\<exists>s1 s2 s3 d u.
      callMusicApi e (urlApi e) (urlParams track (trackId t) br) s1 = (Inr (Some d), s2)
      \<and> url_url d = Some u \<and> u \<noteq> [] \<and> url t = Some (sanitizeUrl u)
      \<and> bitrate t = Some br
      \<and> cover t = fst (fetchCover e track (picId t) s2)
      \<and> lyric t = fst (fst (fetchLyric e track (lyricId t) s3))
      \<and> tLyric t = snd (fst (fetchLyric e track (lyricId t) s3))"
proof -
  obtain ids s1 where res: "resolveIds e track s = (Inr ids, s1)"
    using assms
    by (cases "resolveIds e track s")
       (auto simp: ensureTrackResolved_def alreadyResolved_def split: sum.splits)
  obtain d s2 where call: "callMusicApi e (urlApi e) (urlParams track (r_trackId ids) br) s1
      = (Inr (Some d), s2)" and tr: "truthyOpt (url_url d)"
    using assms res
    by (cases "callMusicApi e (urlApi e) (urlParams track (r_trackId ids) br) s1")
       (auto simp: ensureTrackResolved_def alreadyResolved_def truthyOpt_def Let_def
          split: sum.splits option.splits if_splits)
  obtain u where u: "url_url d = Some u" "u \<noteq> []"
    using tr by (cases "url_url d") (auto simp: truthyOpt_def truthy_def)
  obtain c s3 where fc: "fetchCover e track (r_picId ids) s2 = (c, s3)"
    by (cases "fetchCover e track (r_picId ids) s2")
  obtain l tl s4 where fl: "fetchLyric e track (r_lyricId ids) s3 = ((l, tl), s4)"
    by (cases "fetchLyric e track (r_lyricId ids) s3") auto
  have t: "t = track\<lparr> url := Some (sanitizeUrl u), trackId := r_trackId ids,
                      picId := r_picId ids, lyricId := r_lyricId ids, cover := c,
                      name := r_name ids, album := r_album ids, artist := r_artist ids,
                      bitrate := Some br, lyric := l, tLyric := tl,
                      fileSizeKb := (case url_size d of Some n \<Rightarrow> Val n
                                     | None \<Rightarrow> orNull (fileSizeKb track)) \<rparr>"
    using assms res call tr u fc fl
    by (auto simp: ensureTrackResolved_def alreadyResolved_def Let_def split: if_splits)
  have fields: "trackId t = r_trackId ids" "picId t = r_picId ids" "lyricId t = r_lyricId ids"
    "url t = Some (sanitizeUrl u)" "bitrate t = Some br" "cover t = c" "lyric t = l"
    "tLyric t = tl"
    unfolding t by simp_all
  show ?thesis
    by (rule exI [of _ s1], rule exI [of _ s2], rule exI [of _ s3], rule exI [of _ d],
        rule exI [of _ u]) (use call u fc fl fields in simp)
qed


subsection \<open>Failed cover and lyric fetches\<close>

lemma callMusicApi_no_Body:
  "\<forall>sent ps v. endpoint sent ps \<noteq> Body v \<Longrightarrow> isl (fst (callMusicApi e endpoint ps s))"
  by (cases "endpoint (fetchLog s) ps")
     (auto simp: callMusicApi_def Let_def split: prod.splits option.splits)

lemma fetchCover_failed:
  assumes "\<forall>sent ps v. picApi e sent ps \<noteq> Body v"
  shows "fst (fetchCover e track pid s) = orNull (cover track)"
proof (cases "truthyOpt pid")
  case False
  then show ?thesis by (simp add: fetchCover_def Let_def)
next
  case True
  have "isl (fst (callMusicApi e (picApi e) (picParams track (the pid)) s))"
    by (rule callMusicApi_no_Body [OF assms])
  then show ?thesis
    using True by (auto simp: fetchCover_def Let_def isl_def split: prod.splits)
qed

lemma fetchLyric_failed:
  assumes "\<forall>sent ps v. lyricApi e sent ps \<noteq> Body v"
  shows "fst (fetchLyric e track lid s) = (orNull (lyric track), orNull (tLyric track))"
proof (cases "truthyNullable (orNull (lyric track)) \<or> \<not> truthyOpt lid")
  case True
  then show ?thesis by (auto simp: fetchLyric_def Let_def)
next
  case False
  have "isl (fst (callMusicApi e (lyricApi e) (lyricParams track (the lid)) s))"
    by (rule callMusicApi_no_Body [OF assms])
  then show ?thesis
    using False by (auto simp: fetchLyric_def Let_def isl_def split: prod.splits)
qed

subsection \<open>When every call succeeds\<close>

lemma callMusicApi_ok:
  assumes "length (requestTimestampsRef s) < RATE_LIMIT_MAX_REQUESTS"
    and "endpoint (fetchLog s) ps = Body v"
  shows "\<exists>s'. callMusicApi e endpoint ps s = (Inr v, s')
      \<and> length (requestTimestampsRef s') \<le> length (requestTimestampsRef s) + 1"
proof -
  let ?kept = "filter (\<lambda>t. dateNow e (clockReads s) - RATE_LIMIT_WINDOW_MS \<le> t)
                 (requestTimestampsRef s)"
  have le: "length ?kept \<le> length (requestTimestampsRef s)" by (rule length_filter_le)
  have lt: "\<not> RATE_LIMIT_MAX_REQUESTS \<le> length ?kept" using assms(1) le by linarith
  show ?thesis
    using lt le assms(2) by (simp add: callMusicApi_def registerRequest_def Let_def)
qed

lemma resolveIds_ok:
  assumes "length (requestTimestampsRef s) < RATE_LIMIT_MAX_REQUESTS"
    and "truthyOpt (trackId track)
         \<or> (keywordOf track \<noteq> [] \<and> (\<forall>sent ps. \<exists>r rs. searchApi e sent ps = Body (Some (r # rs))))"
  shows "\<exists>ids s1. resolveIds e track s = (Inr ids, s1)
      \<and> length (requestTimestampsRef s1) \<le> length (requestTimestampsRef s) + 1"
proof (cases "truthyOpt (trackId track)")
  case True
  then show ?thesis by (simp add: resolveIds_direct)
next
  case False
  then have kw: "keywordOf track \<noteq> []"
    and api: "\<forall>sent ps. \<exists>r rs. searchApi e sent ps = Body (Some (r # rs))"
    using assms(2) by auto
  obtain r rs where reply:
    "searchApi e (fetchLog s) (searchParams track (keywordOf track)) = Body (Some (r # rs))"
    using api by blast
  from callMusicApi_ok [where endpoint = "searchApi e" and e = e, OF assms(1) reply]
  obtain s1 where call:
    "callMusicApi e (searchApi e) (searchParams track (keywordOf track)) s
       = (Inr (Some (r # rs)), s1)"
    and len: "length (requestTimestampsRef s1) \<le> length (requestTimestampsRef s) + 1"
    by blast
  obtain best where best: "selectBestSearchResult e (Some (r # rs)) track = Some best"
    using selectBestSearchResult_Some by blast
  show ?thesis
    using False kw call best len by (simp add: resolveIds_def Let_def truthy_def)
qed

lemma fetchCover_ok:
  assumes "length (requestTimestampsRef s) < RATE_LIMIT_MAX_REQUESTS"
    and "\<forall>sent ps. picApi e sent ps = Body (Some pd)"
    and "pic_url pd = Some pu" "trim pu \<noteq> []"
  shows "\<exists>s'. fetchCover e track pid s
            = (if truthyOpt pid then Val pu else orNull (cover track), s')
      \<and> length (requestTimestampsRef s') \<le> length (requestTimestampsRef s) + 1"
proof (cases "truthyOpt pid")
  case False
  then show ?thesis by (simp add: fetchCover_def Let_def)
next
  case True
  have reply: "picApi e (fetchLog s) (picParams track (the pid)) = Body (Some pd)"
    using assms(2) by simp
  from callMusicApi_ok [where endpoint = "picApi e" and e = e, OF assms(1) reply]
  obtain s' where "callMusicApi e (picApi e) (picParams track (the pid)) s = (Inr (Some pd), s')"
    and "length (requestTimestampsRef s') \<le> length (requestTimestampsRef s) + 1"
    by blast
  then show ?thesis
    using True assms(3,4) by (simp add: fetchCover_def Let_def truthy_def)
qed

lemma fetchLyric_ok:
  assumes "length (requestTimestampsRef s) < RATE_LIMIT_MAX_REQUESTS"
    and "\<forall>sent ps. lyricApi e sent ps = Body (Some ld)"
  shows "\<exists>s'. fetchLyric e track lid s
            = (if truthyNullable (orNull (lyric track)) \<or> \<not> truthyOpt lid
               then (orNull (lyric track), orNull (tLyric track))
               else (if nonBlank (resp_lyric ld) then resp_lyric ld else orNull (lyric track),
                     if nonBlank (resp_tlyric ld) then resp_tlyric ld
                     else orNull (tLyric track)), s')
      \<and> length (requestTimestampsRef s') \<le> length (requestTimestampsRef s) + 1"
proof (cases "truthyNullable (orNull (lyric track)) \<or> \<not> truthyOpt lid")
  case True
  then show ?thesis by (auto simp: fetchLyric_def Let_def)
next
  case False
  have reply: "lyricApi e (fetchLog s) (lyricParams track (the lid)) = Body (Some ld)"
    using assms(2) by simp
  from callMusicApi_ok [where endpoint = "lyricApi e" and e = e, OF assms(1) reply]
  obtain s' where "callMusicApi e (lyricApi e) (lyricParams track (the lid)) s
      = (Inr (Some ld), s')"
    and "length (requestTimestampsRef s') \<le> length (requestTimestampsRef s) + 1"
    by blast
  then show ?thesis
    using False by (simp add: fetchLyric_def Let_def)
qed

lemma ensure_ok:
  assumes nres: "\<not> alreadyResolved track br"
    and budget: "length (requestTimestampsRef s) + 4 \<le> RATE_LIMIT_MAX_REQUESTS"
    and search: "truthyOpt (trackId track)
         \<or> (keywordOf track \<noteq> [] \<and> (\<forall>sent ps. \<exists>r rs. searchApi e sent ps = Body (Some (r # rs))))"
    and urlr: "\<forall>sent ps. urlApi e sent ps = Body (Some ud)" "url_url ud = Some u" "u \<noteq> []"
    and picr: "\<forall>sent ps. picApi e sent ps = Body (Some pd)" "pic_url pd = Some pu" "trim pu \<noteq> []"
    and lyrr: "\<forall>sent ps. lyricApi e sent ps = Body (Some ld)"
  shows "\<exists>t s'. ensureTrackResolved e track br s = (Inr t, s')
      \<and> url t = Some (sanitizeUrl u)
      \<and> cover t = (if truthyOpt (picId t) then Val pu else orNull (cover track))
      \<and> (lyric t, tLyric t) =
          (if truthyNullable (orNull (lyric track)) \<or> \<not> truthyOpt (lyricId t)
           then (orNull (lyric track), orNull (tLyric track))
           else (if nonBlank (resp_lyric ld) then resp_lyric ld else orNull (lyric track),
                 if nonBlank (resp_tlyric ld) then resp_tlyric ld else orNull (tLyric track)))"
proof -
  have b0: "length (requestTimestampsRef s) < RATE_LIMIT_MAX_REQUESTS" using budget by simp
  from resolveIds_ok [OF b0 search]
  obtain ids s1 where res: "resolveIds e track s = (Inr ids, s1)"
    and l1: "length (requestTimestampsRef s1) \<le> length (requestTimestampsRef s) + 1" by blast
  have b1: "length (requestTimestampsRef s1) < RATE_LIMIT_MAX_REQUESTS" using budget l1 by simp
  have ur: "urlApi e (fetchLog s1) (urlParams track (r_trackId ids) br) = Body (Some ud)"
    using urlr(1) by simp
  from callMusicApi_ok [where endpoint = "urlApi e" and e = e, OF b1 ur]
  obtain s2 where call: "callMusicApi e (urlApi e) (urlParams track (r_trackId ids) br) s1
        = (Inr (Some ud), s2)"
    and l2: "length (requestTimestampsRef s2) \<le> length (requestTimestampsRef s1) + 1" by blast
  have b2: "length (requestTimestampsRef s2) < RATE_LIMIT_MAX_REQUESTS"
    using budget l1 l2 by simp
  from fetchCover_ok [OF b2 picr, of track "r_picId ids"]
  obtain s3 where fc: "fetchCover e track (r_picId ids) s2
        = (if truthyOpt (r_picId ids) then Val pu else orNull (cover track), s3)"
    and l3: "length (requestTimestampsRef s3) \<le> length (requestTimestampsRef s2) + 1" by blast
  have b3: "length (requestTimestampsRef s3) < RATE_LIMIT_MAX_REQUESTS"
    using budget l1 l2 l3 by simp
  from fetchLyric_ok [OF b3 lyrr, of track "r_lyricId ids"]
  obtain s4 where fl: "fetchLyric e track (r_lyricId ids) s3
        = (if truthyNullable (orNull (lyric track)) \<or> \<not> truthyOpt (r_lyricId ids)
           then (orNull (lyric track), orNull (tLyric track))
           else (if nonBlank (resp_lyric ld) then resp_lyric ld else orNull (lyric track),
                 if nonBlank (resp_tlyric ld) then resp_tlyric ld
                 else orNull (tLyric track)), s4)"
    by blast
  have tr: "truthyOpt (url_url ud)" using urlr(2,3) by (simp add: truthyOpt_def truthy_def)
  obtain c where c: "c = (if truthyOpt (r_picId ids) then Val pu else orNull (cover track))"
    by simp
  obtain l tl where ltl: "(l, tl) =
       (if truthyNullable (orNull (lyric track)) \<or> \<not> truthyOpt (r_lyricId ids)
           then (orNull (lyric track), orNull (tLyric track))
           else (if nonBlank (resp_lyric ld) then resp_lyric ld else orNull (lyric track),
                 if nonBlank (resp_tlyric ld) then resp_tlyric ld
                 else orNull (tLyric track)))"
    by (metis surj_pair)
  define t where "t = track\<lparr> url := Some (sanitizeUrl u), trackId := r_trackId ids,
                      picId := r_picId ids, lyricId := r_lyricId ids, cover := c,
                      name := r_name ids, album := r_album ids, artist := r_artist ids,
                      bitrate := Some br, lyric := l, tLyric := tl,
                      fileSizeKb := (case url_size ud of Some n \<Rightarrow> Val n
                                     | None \<Rightarrow> orNull (fileSizeKb track)) \<rparr>"
  have ens: "ensureTrackResolved e track br s = (Inr t, updateTrackInStates t s4)"
    using nres res call tr urlr(2) fc [folded c] fl [folded ltl]
    by (auto simp: ensureTrackResolved_def alreadyResolved_def Let_def t_def split: if_splits)
  have fields: "url t = Some (sanitizeUrl u)" "picId t = r_picId ids" "lyricId t = r_lyricId ids"
    "cover t = c" "lyric t = l" "tLyric t = tl"
    by (simp_all add: t_def)
  show ?thesis
    by (rule exI [of _ t], rule exI [of _ "updateTrackInStates t s4"])
       (use ens fields c ltl in simp)
qed

lemmas resolve_eval = ensureTrackResolved_def resolveIds_def callMusicApi_def registerRequest_def
  fetchCover_def fetchLyric_def updateTrackInStates_def initialPlayer_def
  RATE_LIMIT_WINDOW_MS_def RATE_LIMIT_MAX_REQUESTS_def truthyOpt_def truthy_def truthyNullable_def
  nonBlank_def orNull_def trim_def isWhiteSpace_def sanitizeUrl_def Let_def js_def
  cageTrack_def createTrack_def LOCAL_TRACKS_def INITIAL_TRACKS_def INITIAL_SOURCE_TRACKS_def
  DEFAULT_SOURCE_def sampleEnv_def noCoverEnv_def emptyUrlEnv_def blankUrlTrack_def
  playableTrack_def sampleUrlReply_def samplePicReply_def sampleLyricReply_def

subsection \<open>The early return\<close>

text \<open>
  C8 as stated fails: a track whose \<open>url\<close> is set to the empty string, at the desired
  bitrate, is resolved again: three requests are sent and three timestamps recorded.
\<close>

theorem ensureTrackResolved_blank_url_counterexample:
  "url blankUrlTrack = Some [] \<and> bitrate blankUrlTrack = Some B320
   \<and> length (fetchLog (snd (ensureTrackResolved sampleEnv blankUrlTrack B320 initialPlayer))) = 3
   \<and> requestTimestampsRef (snd (ensureTrackResolved sampleEnv blankUrlTrack B320 initialPlayer))
        = [0, 1000, 2000]"
  by (simp add: resolve_eval)

text \<open>
  C8 (amended): for every track whose \<open>url\<close> is a non-empty string and whose bitrate is
  the desired one, \<open>ensureTrackResolved\<close> returns that track, sends no request and leaves
  the recorded timestamps, and the rest of the state, as they are.
\<close>

theorem ensureTrackResolved_already_resolved:
  assumes "url track = Some u" "u \<noteq> []" "bitrate track = Some br"
  shows "ensureTrackResolved e track br s = (Inr track, s)
     \<and> fetchLog (snd (ensureTrackResolved e track br s)) = fetchLog s
     \<and> requestTimestampsRef (snd (ensureTrackResolved e track br s)) = requestTimestampsRef s"
proof -
  have "alreadyResolved track br"
    using assms by (simp add: alreadyResolved_def truthyOpt_def truthy_def)
  then show ?thesis by (simp add: ensure_already)
qed

theorem ensureTrackResolved_already_resolved_witness:
  "url playableTrack = Some (js ''https://cdn.example/a.mp3'')
   \<and> js ''https://cdn.example/a.mp3'' \<noteq> []
   \<and> bitrate playableTrack = Some B320
   \<and> ensureTrackResolved sampleEnv playableTrack B320 initialPlayer
        = (Inr playableTrack, initialPlayer)
   \<and> fetchLog (snd (ensureTrackResolved sampleEnv playableTrack B320 initialPlayer)) = []"
proof -
  have h: "url playableTrack = Some (js ''https://cdn.example/a.mp3'')"
    "js ''https://cdn.example/a.mp3'' \<noteq> []" "bitrate playableTrack = Some B320"
    by (simp_all add: playableTrack_def cageTrack_def createTrack_def LOCAL_TRACKS_def js_def)
  have l: "fetchLog initialPlayer = []" by (simp add: initialPlayer_def)
  show ?thesis
    using h l ensureTrackResolved_already_resolved [OF h, of sampleEnv initialPlayer]
    by simp
qed

subsection \<open>What a resolved track holds\<close>

text \<open>
  C5 as stated fails: when the pic and lyric endpoints fail, \<open>ensureTrackResolved\<close> still
  returns a track for the descriptor; it has a pic id and a url, but its cover is \<open>null\<close>
  and so is its lyric.
\<close>

theorem ensureTrackResolved_no_cover_counterexample:
  "\<not> isl (fst (ensureTrackResolved noCoverEnv cageTrack B320 initialPlayer))
   \<and> picId (projr (fst (ensureTrackResolved noCoverEnv cageTrack B320 initialPlayer)))
       = Some (js ''109951166200369055'')
   \<and> url (projr (fst (ensureTrackResolved noCoverEnv cageTrack B320 initialPlayer)))
       = Some (js ''https://cdn.example/a.mp3?x=1&y=2'')
   \<and> cover (projr (fst (ensureTrackResolved noCoverEnv cageTrack B320 initialPlayer))) = Null
   \<and> lyric (projr (fst (ensureTrackResolved noCoverEnv cageTrack B320 initialPlayer))) = Null"
  by (simp add: resolve_eval)

text \<open>
  C5 (amended): for a track that is not already resolved (a descriptor has no url),
  whenever \<open>ensureTrackResolved\<close> returns a track, its url is the sanitized non-empty url
  of a reply of the url endpoint for its track id and the desired bitrate, its bitrate is
  the desired one, its cover is an image URL the pic endpoint returned for its non-empty
  pic id or else the cover the track had (null if undefined), and its lyric and tLyric
  are lyrics the lyric endpoint returned for its non-empty lyric id or else the values
  the track had (null if undefined). When the rate limiter has room for four calls and
  every endpoint answers (the search with a non-empty list when there is no track id),
  it does return a track, with the sanitized url of the reply, the image URL of the reply
  when it has a pic id, and the non-blank lyrics of the reply when it had no lyric and has
  a lyric id.
\<close>

theorem ensureTrackResolved_resolves:
  assumes "\<not> (truthyOpt (url track) \<and> bitrate track = Some br)"
  shows "(ensureTrackResolved e track br s = (Inr t, s') \<longrightarrow>
            urlFromEndpoint e track br t
            \<and> bitrate t = Some br
            \<and> (cover t = orNull (cover track) \<or> coverFromEndpoint e track t)
            \<and> (lyric t = orNull (lyric track) \<or> lyricFromEndpoint e track t)
            \<and> (tLyric t = orNull (tLyric track) \<or> tLyricFromEndpoint e track t))
     \<and> (length (requestTimestampsRef s) + 4 \<le> 60
        \<and> (truthyOpt (trackId track)
            \<or> (keywordOf track \<noteq> []
                \<and> (\<forall>sent ps. \<exists>r rs. searchApi e sent ps = Body (Some (r # rs)))))
        \<and> (\<forall>sent ps. urlApi e sent ps = Body (Some ud)) \<and> url_url ud = Some u \<and> u \<noteq> []
        \<and> (\<forall>sent ps. picApi e sent ps = Body (Some pd)) \<and> pic_url pd = Some pu \<and> trim pu \<noteq> []
        \<and> (\<forall>sent ps. lyricApi e sent ps = Body (Some ld)) \<longrightarrow>
          (\<exists>r z. ensureTrackResolved e track br s = (Inr r, z)
             \<and> url r = Some (sanitizeUrl u)
             \<and> cover r = (if truthyOpt (picId r) then Val pu else orNull (cover track))
             \<and> (lyric r, tLyric r) =
                 (if truthyNullable (orNull (lyric track)) \<or> \<not> truthyOpt (lyricId r)
                  then (orNull (lyric track), orNull (tLyric track))
                  else (if nonBlank (resp_lyric ld) then resp_lyric ld
                        else orNull (lyric track),
                        if nonBlank (resp_tlyric ld) then resp_tlyric ld
                        else orNull (tLyric track)))))"
proof (intro conjI impI)
  have nres: "\<not> alreadyResolved track br" using assms by (simp add: alreadyResolved_def)
  {
    assume ret: "ensureTrackResolved e track br s = (Inr t, s')"
    from ensure_Inr_fields [OF ret nres]
    obtain s1 s2 s3 d v where
      call: "callMusicApi e (urlApi e) (urlParams track (trackId t) br) s1 = (Inr (Some d), s2)"
      and v: "url_url d = Some v" "v \<noteq> []" "url t = Some (sanitizeUrl v)"
      and br: "bitrate t = Some br"
      and c: "cover t = fst (fetchCover e track (picId t) s2)"
      and l: "lyric t = fst (fst (fetchLyric e track (lyricId t) s3))"
      and tl: "tLyric t = snd (fst (fetchLyric e track (lyricId t) s3))"
      by blast
    have "urlApi e (fetchLog s1) (urlParams track (trackId t) br) = Body (Some d)"
      by (rule callMusicApi_Inr [OF call])
    then show "urlFromEndpoint e track br t"
      unfolding urlFromEndpoint_def using v by blast
    show "bitrate t = Some br" by (rule br)
    show "cover t = orNull (cover track) \<or> coverFromEndpoint e track t"
      using fetchCover_sound [of e track "picId t" s2] unfolding c coverFromEndpoint_def
      by blast
    show "lyric t = orNull (lyric track) \<or> lyricFromEndpoint e track t"
      using fetchLyric_sound [of e track "lyricId t" s3] unfolding l lyricFromEndpoint_def
      by blast
    show "tLyric t = orNull (tLyric track) \<or> tLyricFromEndpoint e track t"
      using fetchLyric_sound [of e track "lyricId t" s3] unfolding tl tLyricFromEndpoint_def
      by blast
  }
  assume ok: "length (requestTimestampsRef s) + 4 \<le> 60
        \<and> (truthyOpt (trackId track)
            \<or> (keywordOf track \<noteq> []
                \<and> (\<forall>sent ps. \<exists>r rs. searchApi e sent ps = Body (Some (r # rs)))))
        \<and> (\<forall>sent ps. urlApi e sent ps = Body (Some ud)) \<and> url_url ud = Some u \<and> u \<noteq> []
        \<and> (\<forall>sent ps. picApi e sent ps = Body (Some pd)) \<and> pic_url pd = Some pu \<and> trim pu \<noteq> []
        \<and> (\<forall>sent ps. lyricApi e sent ps = Body (Some ld))"
  then have budget: "length (requestTimestampsRef s) + 4 \<le> RATE_LIMIT_MAX_REQUESTS"
    by (simp add: RATE_LIMIT_MAX_REQUESTS_def)
  show "\<exists>r z. ensureTrackResolved e track br s = (Inr r, z)
             \<and> url r = Some (sanitizeUrl u)
             \<and> cover r = (if truthyOpt (picId r) then Val pu else orNull (cover track))
             \<and> (lyric r, tLyric r) =
                 (if truthyNullable (orNull (lyric track)) \<or> \<not> truthyOpt (lyricId r)
                  then (orNull (lyric track), orNull (tLyric track))
                  else (if nonBlank (resp_lyric ld) then resp_lyric ld
                        else orNull (lyric track),
                        if nonBlank (resp_tlyric ld) then resp_tlyric ld
                        else orNull (tLyric track)))"
    by (rule ensure_ok [OF nres budget]) (use ok in blast)+
qed
lemma returned_pair:
  "\<not> isl (fst x) \<Longrightarrow> x = (Inr (projr (fst x)), snd x)"
  by (cases x; cases "fst x"; simp)

theorem ensureTrackResolved_resolves_witness:
  "\<not> (truthyOpt (url cageTrack) \<and> bitrate cageTrack = Some B320)
   \<and> \<not> isl (fst (ensureTrackResolved sampleEnv cageTrack B320 initialPlayer))
   \<and> urlFromEndpoint sampleEnv cageTrack B320
        (projr (fst (ensureTrackResolved sampleEnv cageTrack B320 initialPlayer)))
   \<and> length (requestTimestampsRef initialPlayer) + 4 \<le> 60
   \<and> truthyOpt (trackId cageTrack)
   \<and> (\<forall>sent ps. urlApi sampleEnv sent ps = Body (Some sampleUrlReply))
   \<and> url_url sampleUrlReply = Some (js ''https://cdn.example/a.mp3?x=1&amp;y=2'')
   \<and> (\<forall>sent ps. picApi sampleEnv sent ps = Body (Some samplePicReply))
   \<and> pic_url samplePicReply = Some (js ''https://img.example/a.jpg'')
   \<and> trim (js ''https://img.example/a.jpg'') \<noteq> []
   \<and> (\<forall>sent ps. lyricApi sampleEnv sent ps = Body (Some sampleLyricReply))
   \<and> (\<exists>r z. ensureTrackResolved sampleEnv cageTrack B320 initialPlayer = (Inr r, z)
          \<and> url r = Some (sanitizeUrl (js ''https://cdn.example/a.mp3?x=1&amp;y=2'')))
   \<and> url (projr (fst (ensureTrackResolved sampleEnv cageTrack B320 initialPlayer)))
       = Some (js ''https://cdn.example/a.mp3?x=1&y=2'')
   \<and> cover (projr (fst (ensureTrackResolved sampleEnv cageTrack B320 initialPlayer)))
       = Val (js ''https://img.example/a.jpg'')
   \<and> lyric (projr (fst (ensureTrackResolved sampleEnv cageTrack B320 initialPlayer)))
       = Val (js ''[00:01.50]hello'')"
proof -
  define R where "R = ensureTrackResolved sampleEnv cageTrack B320 initialPlayer"
  have h: "\<not> (truthyOpt (url cageTrack) \<and> bitrate cageTrack = Some B320)"
    by (simp add: cageTrack_def createTrack_def truthyOpt_def)
  have b: "length (requestTimestampsRef initialPlayer) + 4 \<le> 60"
    by (simp add: initialPlayer_def)
  have tid: "truthyOpt (trackId cageTrack)"
    by (simp add: cageTrack_def createTrack_def LOCAL_TRACKS_def truthyOpt_def truthy_def js_def)
  have api: "\<forall>sent ps. urlApi sampleEnv sent ps = Body (Some sampleUrlReply)"
    "url_url sampleUrlReply = Some (js ''https://cdn.example/a.mp3?x=1&amp;y=2'')"
    "js ''https://cdn.example/a.mp3?x=1&amp;y=2'' \<noteq> []"
    "\<forall>sent ps. picApi sampleEnv sent ps = Body (Some samplePicReply)"
    "pic_url samplePicReply = Some (js ''https://img.example/a.jpg'')"
    "trim (js ''https://img.example/a.jpg'') \<noteq> []"
    "\<forall>sent ps. lyricApi sampleEnv sent ps = Body (Some sampleLyricReply)"
    by (simp_all add: sampleEnv_def sampleUrlReply_def samplePicReply_def sampleLyricReply_def
        js_def trim_def isWhiteSpace_def)
  have ev: "\<not> isl (fst R)"
    "url (projr (fst R)) = Some (js ''https://cdn.example/a.mp3?x=1&y=2'')"
    "cover (projr (fst R)) = Val (js ''https://img.example/a.jpg'')"
    "lyric (projr (fst R)) = Val (js ''[00:01.50]hello'')"
    unfolding R_def by (simp_all add: resolve_eval)
  have ret: "ensureTrackResolved sampleEnv cageTrack B320 initialPlayer
      = (Inr (projr (fst R)), snd R)"
    using returned_pair [OF ev(1)] unfolding R_def .
  note inst = ensureTrackResolved_resolves [OF h, where e = sampleEnv and s = initialPlayer
      and t = "projr (fst R)" and s' = "snd R" and ud = sampleUrlReply
      and u = "js ''https://cdn.example/a.mp3?x=1&amp;y=2''" and pd = samplePicReply
      and pu = "js ''https://img.example/a.jpg''" and ld = sampleLyricReply]
  have from_url: "urlFromEndpoint sampleEnv cageTrack B320 (projr (fst R))"
    using inst ret by blast
  have "\<exists>r z. ensureTrackResolved sampleEnv cageTrack B320 initialPlayer = (Inr r, z)
          \<and> url r = Some (sanitizeUrl (js ''https://cdn.example/a.mp3?x=1&amp;y=2''))"
    using inst b tid api by blast
  then show ?thesis
    using h b tid api ev from_url unfolding R_def by blast
qed

subsection \<open>When ensureTrackResolved throws\<close>

text \<open>
  C6 as stated fails: the track has a track id, the rate limiter admits the call, the fetch
  succeeds and the reply of the url endpoint has a \<open>url\<close> field, holding the empty
  string; \<open>ensureTrackResolved\<close> throws all the same.
\<close>

theorem ensureTrackResolved_empty_url_counterexample:
  "truthyOpt (trackId cageTrack)
   \<and> fst (registerRequest (dateNow emptyUrlEnv 0) []) = None
   \<and> urlApi emptyUrlEnv [] (urlParams cageTrack (trackId cageTrack) B320)
        = Body (Some \<lparr> url_url = Some [], url_br = None, url_size = None \<rparr>)
   \<and> fst (ensureTrackResolved emptyUrlEnv cageTrack B320 initialPlayer) = Inl NoPlayUrl"
  by (simp add: resolve_eval)

text \<open>
  C6 (amended): \<open>ensureTrackResolved\<close> throws exactly when the track is not already
  resolved and one of these holds: it has no non-empty track id and its search keyword
  (the explicit keyword, else name and artist, trimmed) is empty; it has no non-empty
  track id and the search call throws (rate limiter, fetch, status, JSON) or returns no
  item; or the url call throws likewise or returns a reply without a non-empty url.
  Whatever the pic and lyric endpoints do, the outcome (return, or throw with which
  error) is the same; when the pic endpoint fails the returned track has the cover it
  had, and when the lyric endpoint fails it has the lyric and tLyric it had, an undefined
  value becoming null.
\<close>

theorem ensureTrackResolved_throws:
  "(\<exists>err. fst (ensureTrackResolved e track br s) = Inl err)
     = (\<not> alreadyResolved track br \<and> throwCases e track br s)
   \<and> (fst (ensureTrackResolved (e\<lparr> picApi := p, lyricApi := l \<rparr>) track br s) = Inl err')
     = (fst (ensureTrackResolved e track br s) = Inl err')
   \<and> (\<not> alreadyResolved track br \<and> ensureTrackResolved e track br s = (Inr t, s')
       \<and> (\<forall>sent ps v. picApi e sent ps \<noteq> Body v)
       \<longrightarrow> cover t = orNull (cover track))
   \<and> (\<not> alreadyResolved track br \<and> ensureTrackResolved e track br s = (Inr t, s')
       \<and> (\<forall>sent ps v. lyricApi e sent ps \<noteq> Body v)
       \<longrightarrow> lyric t = orNull (lyric track) \<and> tLyric t = orNull (tLyric track))"
proof (intro conjI impI)
  show "(\<exists>err. fst (ensureTrackResolved e track br s) = Inl err)
     = (\<not> alreadyResolved track br \<and> throwCases e track br s)"
    using ensure_throws_iff [of e track br s] by (simp add: isl_def)
  show "(fst (ensureTrackResolved (e\<lparr> picApi := p, lyricApi := l \<rparr>) track br s) = Inl err')
     = (fst (ensureTrackResolved e track br s) = Inl err')"
    by (rule ensure_error_env) simp_all
next
  assume a: "\<not> alreadyResolved track br \<and> ensureTrackResolved e track br s = (Inr t, s')
       \<and> (\<forall>sent ps v. picApi e sent ps \<noteq> Body v)"
  then have nres: "\<not> alreadyResolved track br"
    and ret: "ensureTrackResolved e track br s = (Inr t, s')"
    and fail: "\<forall>sent ps v. picApi e sent ps \<noteq> Body v" by blast+
  from ensure_Inr_fields [OF ret nres]
  obtain s2 where "cover t = fst (fetchCover e track (picId t) s2)" by blast
  then show "cover t = orNull (cover track)"
    using fetchCover_failed [OF fail] by simp
next
  assume a: "\<not> alreadyResolved track br \<and> ensureTrackResolved e track br s = (Inr t, s')
       \<and> (\<forall>sent ps v. lyricApi e sent ps \<noteq> Body v)"
  then have nres: "\<not> alreadyResolved track br"
    and ret: "ensureTrackResolved e track br s = (Inr t, s')"
    and fail: "\<forall>sent ps v. lyricApi e sent ps \<noteq> Body v" by blast+
  from ensure_Inr_fields [OF ret nres]
  obtain s3 where "lyric t = fst (fst (fetchLyric e track (lyricId t) s3))"
    "tLyric t = snd (fst (fetchLyric e track (lyricId t) s3))" by blast
  then show "lyric t = orNull (lyric track)" "tLyric t = orNull (tLyric track)"
    using fetchLyric_failed [OF fail] by simp_all
qed

theorem ensureTrackResolved_throws_witness:
  "\<not> alreadyResolved cageTrack B320
   \<and> (\<forall>sent ps v. picApi noCoverEnv sent ps \<noteq> Body v)
   \<and> (\<forall>sent ps v. lyricApi noCoverEnv sent ps \<noteq> Body v)
   \<and> \<not> isl (fst (ensureTrackResolved noCoverEnv cageTrack B320 initialPlayer))
   \<and> cover (projr (fst (ensureTrackResolved noCoverEnv cageTrack B320 initialPlayer)))
       = orNull (cover cageTrack)
   \<and> lyric (projr (fst (ensureTrackResolved noCoverEnv cageTrack B320 initialPlayer)))
       = orNull (lyric cageTrack)
   \<and> cover cageTrack = Undefined
   \<and> fst (ensureTrackResolved emptyUrlEnv cageTrack B320 initialPlayer) = Inl NoPlayUrl
   \<and> throwCases emptyUrlEnv cageTrack B320 initialPlayer"
proof -
  define R where "R = ensureTrackResolved noCoverEnv cageTrack B320 initialPlayer"
  have nres: "\<not> alreadyResolved cageTrack B320"
    by (simp add: alreadyResolved_def cageTrack_def createTrack_def truthyOpt_def)
  have pf: "\<forall>sent ps v. picApi noCoverEnv sent ps \<noteq> Body v"
    and lf: "\<forall>sent ps v. lyricApi noCoverEnv sent ps \<noteq> Body v"
    by (simp_all add: noCoverEnv_def)
  have ev: "\<not> isl (fst R)" unfolding R_def by (simp add: resolve_eval)
  have ret: "ensureTrackResolved noCoverEnv cageTrack B320 initialPlayer
      = (Inr (projr (fst R)), snd R)"
    using returned_pair [OF ev] unfolding R_def .
  note inst = ensureTrackResolved_throws [where e = noCoverEnv and track = cageTrack
      and br = B320 and s = initialPlayer and p = "picApi noCoverEnv"
      and l = "lyricApi noCoverEnv" and err' = NoPlayUrl and t = "projr (fst R)"
      and s' = "snd R"]
  have c: "cover (projr (fst R)) = orNull (cover cageTrack)"
    using inst nres ret pf by blast
  have l: "lyric (projr (fst R)) = orNull (lyric cageTrack)"
    using inst nres ret lf by blast
  have u: "cover cageTrack = Undefined"
    by (simp add: cageTrack_def createTrack_def LOCAL_TRACKS_def truthyOpt_def truthy_def js_def)
  have t: "fst (ensureTrackResolved emptyUrlEnv cageTrack B320 initialPlayer) = Inl NoPlayUrl"
    by (simp add: resolve_eval)
  have "throwCases emptyUrlEnv cageTrack B320 initialPlayer"
    using ensureTrackResolved_throws [where e = emptyUrlEnv and track = cageTrack
      and br = B320 and s = initialPlayer and p = "picApi emptyUrlEnv"
      and l = "lyricApi emptyUrlEnv" and err' = NoPlayUrl and t = "projr (fst R)"
      and s' = "snd R"] t
    by blast
  then show ?thesis
    using nres pf lf ev c l u t unfolding R_def by blast
qed

section \<open>Properties of playSong, playNext and playPrevious\<close>

text \<open>
  Resolving a track changes neither the request counter of \<open>playSong\<close> nor the current
  song.
\<close>

lemma callMusicApi_control:
  "callMusicApi e endpoint ps s = (r, s')
   \<Longrightarrow> playRequestIdRef s' = playRequestIdRef s \<and> currentSongIndex s' = currentSongIndex s"
  by (auto simp: callMusicApi_def Let_def
        split: prod.splits option.splits fetch_outcome.splits)

lemma resolveIds_control:
  "resolveIds e track s = (r, s')
   \<Longrightarrow> playRequestIdRef s' = playRequestIdRef s \<and> currentSongIndex s' = currentSongIndex s"
  by (auto simp: resolveIds_def Let_def dest: callMusicApi_control
        split: if_splits prod.splits sum.splits option.splits)

lemma fetchCover_control:
  "fetchCover e track pid s = (r, s')
   \<Longrightarrow> playRequestIdRef s' = playRequestIdRef s \<and> currentSongIndex s' = currentSongIndex s"
  by (auto simp: fetchCover_def Let_def dest: callMusicApi_control
        split: if_splits prod.splits sum.splits option.splits)

lemma fetchLyric_control:
  "fetchLyric e track lid s = (r, s')
   \<Longrightarrow> playRequestIdRef s' = playRequestIdRef s \<and> currentSongIndex s' = currentSongIndex s"
  by (auto simp: fetchLyric_def Let_def dest: callMusicApi_control
        split: if_splits prod.splits sum.splits option.splits)

lemma updateTrackInStates_control:
  "playRequestIdRef (updateTrackInStates t s) = playRequestIdRef s
   \<and> currentSongIndex (updateTrackInStates t s) = currentSongIndex s"
  by (simp add: updateTrackInStates_def)

lemma ensureTrackResolved_control:
  assumes "ensureTrackResolved e track br s = (r, s')"
  shows "playRequestIdRef s' = playRequestIdRef s \<and> currentSongIndex s' = currentSongIndex s"
proof (cases "truthyOpt (url track) \<and> bitrate track = Some br")
  case True
  then show ?thesis using assms by (simp add: ensureTrackResolved_def)
next
  case False
  obtain r1 s1 where ids: "resolveIds e track s = (r1, s1)" by (cases "resolveIds e track s")
  note c1 = resolveIds_control [OF ids]
  show ?thesis
  proof (cases r1)
    case (Inl err)
    then show ?thesis using assms False ids c1 by (simp add: ensureTrackResolved_def)
  next
    case (Inr ids1)
    obtain r2 s2 where call:
      "callMusicApi e (urlApi e) (urlParams track (r_trackId ids1) br) s1 = (r2, s2)"
      by (cases "callMusicApi e (urlApi e) (urlParams track (r_trackId ids1) br) s1")
    note c2 = callMusicApi_control [OF call]
    show ?thesis
    proof (cases r2)
      case (Inl err)
      then show ?thesis
        using assms False ids Inr call c1 c2 by (simp add: ensureTrackResolved_def)
    next
      case urlData: (Inr urlData)
      show ?thesis
      proof (cases "truthyOpt (case urlData of None \<Rightarrow> None | Some d \<Rightarrow> url_url d)")
        case no: False
        then show ?thesis
          using assms False ids Inr call urlData c1 c2 by (simp add: ensureTrackResolved_def)
      next
        case yes: True
        obtain c s3 where cov: "fetchCover e track (r_picId ids1) s2 = (c, s3)"
          by (cases "fetchCover e track (r_picId ids1) s2")
        obtain l s4 where lyr: "fetchLyric e track (r_lyricId ids1) s3 = (l, s4)"
          by (cases "fetchLyric e track (r_lyricId ids1) s3")
        note c3 = fetchCover_control [OF cov]
        note c4 = fetchLyric_control [OF lyr]
        have "\<exists>t. s' = updateTrackInStates t s4"
          using assms False ids Inr call urlData yes cov lyr
          by (auto simp: ensureTrackResolved_def Let_def split: prod.splits)
        then show ?thesis
          using c1 c2 c3 c4 updateTrackInStates_control by auto
      qed
    qed
  qed
qed

text \<open>\<open>playSong\<close> returns at once for an index out of range or already loading.\<close>

lemma playSong_guard:
  "index < 0 \<or> index \<ge> int (length (musicList s)) \<or> loadingTrackIndex s = Some index
   \<Longrightarrow> playSong e index autoplay s = s"
  by (auto simp: playSong_def playSong_begin_def)

text \<open>
  Past the guards, \<open>playSong\<close> makes \<open>index\<close> the current song when it has a track to play,
  and otherwise leaves the current song and sets the error message.
\<close>

lemma playSong_effect:
  assumes rng: "0 \<le> index" "index < int (length (musicList s))"
    and nl: "loadingTrackIndex s \<noteq> Some index"
  shows "(playSongResolves e index s
            \<longrightarrow> currentSongIndex (playSong e index True s) = index
              \<and> loadingTrackIndex (playSong e index True s) = None)
       \<and> (\<not> playSongResolves e index s
            \<longrightarrow> currentSongIndex (playSong e index True s) = currentSongIndex s
              \<and> errorMessage (playSong e index True s) \<noteq> None)"
proof -
  define rid where "rid = playRequestIdRef s + 1"
  obtain w s1 where beg: "playSong_begin index True s = (w, s1)"
    by (cases "playSong_begin index True s")
  show ?thesis
  proof (cases w)
    case None
    then have "currentSongIndex s1 = index \<and> loadingTrackIndex s1 = None"
      using beg rng nl
      by (auto simp: playSong_begin_def playSong_resume_def Let_def updateTrackInStates_def
            split: if_splits)
    then show ?thesis
      using beg None by (simp add: playSong_def playSongResolves_def)
  next
    case (Some p)
    obtain q baseTrack where p: "p = (q, baseTrack)" by (cases p)
    have q: "q = rid" and s1: "playRequestIdRef s1 = rid" "currentSongIndex s1 = currentSongIndex s"
      using beg Some p rng nl
      by (auto simp: playSong_begin_def rid_def Let_def updateTrackInStates_def
            split: if_splits)
    obtain outcome s2 where ens:
      "ensureTrackResolved e baseTrack (selectedBitrate s) s1 = (outcome, s2)"
      by (cases "ensureTrackResolved e baseTrack (selectedBitrate s) s1")
    note c = ensureTrackResolved_control [OF ens]
    have ps: "playSong e index True s = playSong_resume rid index True outcome s2"
      using beg Some p q ens by (simp add: playSong_def)
    have res: "playSongResolves e index s = (\<not> isl outcome)"
      using beg Some p ens by (simp add: playSongResolves_def)
    show ?thesis
      unfolding ps res using c s1
      by (cases outcome) (simp_all add: playSong_resume_def Let_def)
  qed
qed

text \<open>
  C9 as stated fails: in order mode, with four songs in the list and the last one
  current, \<open>playNext\<close> does not wrap to index 0 when the url request of the first song
  is answered with an empty url: the current song stays the last one and the error
  message is set.
\<close>

theorem playNext_unresolved_counterexample:
  "playbackModeRef lastSongPlayer = Order
   \<and> length (musicList lastSongPlayer) = 4
   \<and> currentSongIndex lastSongPlayer = 3
   \<and> currentSongIndex (the (playNext emptyUrlEnv [] lastSongPlayer)) = 3
   \<and> errorMessage (the (playNext emptyUrlEnv [] lastSongPlayer)) = Some NoPlayUrl"
  by (simp add: playNext_def playSong_def playSong_begin_def playSong_resume_def
        lastSongPlayer_def resolve_eval)

text \<open>
  C9 (amended): with an empty list \<open>playNext\<close> and \<open>playPrevious\<close> leave the state as it
  is; with a non-empty list and no current song both are the call \<open>playSong(0)\<close>; in
  order mode with a current song in the list, \<open>playNext\<close> is the call of \<open>playSong\<close> on the
  next index, 0 after the last, and \<open>playPrevious\<close> the call on the previous index, the
  last one before the first. Such a call \<open>playSong(i)\<close>, for an index of the list that
  is not already loading, makes \<open>i\<close> the current song when the track has a non-empty
  url at the selected bitrate or is resolved, and otherwise leaves the current song
  and sets the error message; for an index that is already loading it changes nothing.
\<close>

theorem playNext_playPrevious_order:
  "(length (musicList s) = 0 \<longrightarrow> playNext e draws s = Some s \<and> playPrevious e draws s = Some s)
   \<and> (length (musicList s) \<noteq> 0 \<and> currentSongIndex s < 0
        \<longrightarrow> playNext e draws s = Some (playSong e 0 True s)
          \<and> playPrevious e draws s = Some (playSong e 0 True s))
   \<and> (length (musicList s) \<noteq> 0 \<and> playbackModeRef s = Order
       \<and> 0 \<le> currentSongIndex s \<and> currentSongIndex s < int (length (musicList s))
        \<longrightarrow> playNext e draws s =
              Some (playSong e (if currentSongIndex s = int (length (musicList s)) - 1 then 0
                                else currentSongIndex s + 1) True s)
          \<and> playPrevious e draws s =
              Some (playSong e (if currentSongIndex s = 0 then int (length (musicList s)) - 1
                                else currentSongIndex s - 1) True s))
   \<and> (0 \<le> i \<and> i < int (length (musicList s)) \<and> loadingTrackIndex s \<noteq> Some i
       \<and> playSongResolves e i s
        \<longrightarrow> currentSongIndex (playSong e i True s) = i
          \<and> loadingTrackIndex (playSong e i True s) = None)
   \<and> (0 \<le> i \<and> i < int (length (musicList s)) \<and> loadingTrackIndex s \<noteq> Some i
       \<and> \<not> playSongResolves e i s
        \<longrightarrow> currentSongIndex (playSong e i True s) = currentSongIndex s
          \<and> errorMessage (playSong e i True s) \<noteq> None)
   \<and> (loadingTrackIndex s = Some i \<longrightarrow> playSong e i True s = s)"
proof -
  have a: "length (musicList s) = 0
      \<longrightarrow> playNext e draws s = Some s \<and> playPrevious e draws s = Some s"
    by (simp add: playNext_def playPrevious_def)
  have b: "length (musicList s) \<noteq> 0 \<and> currentSongIndex s < 0
      \<longrightarrow> playNext e draws s = Some (playSong e 0 True s)
        \<and> playPrevious e draws s = Some (playSong e 0 True s)"
    by (simp add: playNext_def playPrevious_def)
  have c: "length (musicList s) \<noteq> 0 \<and> playbackModeRef s = Order
       \<and> 0 \<le> currentSongIndex s \<and> currentSongIndex s < int (length (musicList s))
      \<longrightarrow> playNext e draws s =
              Some (playSong e (if currentSongIndex s = int (length (musicList s)) - 1 then 0
                                else currentSongIndex s + 1) True s)
        \<and> playPrevious e draws s =
              Some (playSong e (if currentSongIndex s = 0 then int (length (musicList s)) - 1
                                else currentSongIndex s - 1) True s)"
    by (auto simp: playNext_def playPrevious_def Let_def le_Suc_eq)
  have d: "0 \<le> i \<and> i < int (length (musicList s)) \<and> loadingTrackIndex s \<noteq> Some i
       \<and> playSongResolves e i s
      \<longrightarrow> currentSongIndex (playSong e i True s) = i
        \<and> loadingTrackIndex (playSong e i True s) = None"
    using playSong_effect [of i s e] by blast
  have f: "0 \<le> i \<and> i < int (length (musicList s)) \<and> loadingTrackIndex s \<noteq> Some i
       \<and> \<not> playSongResolves e i s
      \<longrightarrow> currentSongIndex (playSong e i True s) = currentSongIndex s
        \<and> errorMessage (playSong e i True s) \<noteq> None"
    using playSong_effect [of i s e] by blast
  have g: "loadingTrackIndex s = Some i \<longrightarrow> playSong e i True s = s"
    using playSong_guard [of i s e True] by blast
  show ?thesis
    using a b c d f g by blast
qed

text \<open>The amended statement on the sample states.\<close>

lemmas play_eval = playSongResolves_def playSong_begin_def lastSongPlayer_def resolve_eval

theorem playNext_playPrevious_order_witness:
  "length (musicList (initialPlayer\<lparr> musicList := [] \<rparr>)) = 0
   \<and> playNext sampleEnv [] (initialPlayer\<lparr> musicList := [] \<rparr>)
       = Some (initialPlayer\<lparr> musicList := [] \<rparr>)
   \<and> playPrevious sampleEnv [] (initialPlayer\<lparr> musicList := [] \<rparr>)
       = Some (initialPlayer\<lparr> musicList := [] \<rparr>)
   \<and> length (musicList initialPlayer) \<noteq> 0 \<and> currentSongIndex initialPlayer < 0
   \<and> loadingTrackIndex initialPlayer \<noteq> Some 0 \<and> playSongResolves sampleEnv 0 initialPlayer
   \<and> currentSongIndex (the (playNext sampleEnv [] initialPlayer)) = 0
   \<and> currentSongIndex (the (playPrevious sampleEnv [] initialPlayer)) = 0
   \<and> playbackModeRef lastSongPlayer = Order
   \<and> 0 \<le> currentSongIndex lastSongPlayer
   \<and> currentSongIndex lastSongPlayer < int (length (musicList lastSongPlayer))
   \<and> currentSongIndex lastSongPlayer = int (length (musicList lastSongPlayer)) - 1
   \<and> loadingTrackIndex lastSongPlayer \<noteq> Some 0 \<and> playSongResolves sampleEnv 0 lastSongPlayer
   \<and> loadingTrackIndex lastSongPlayer \<noteq> Some 2 \<and> playSongResolves sampleEnv 2 lastSongPlayer
   \<and> currentSongIndex (the (playNext sampleEnv [] lastSongPlayer)) = 0
   \<and> currentSongIndex (the (playPrevious sampleEnv [] lastSongPlayer)) = 2
   \<and> \<not> playSongResolves emptyUrlEnv 0 lastSongPlayer
   \<and> currentSongIndex (the (playNext emptyUrlEnv [] lastSongPlayer)) = 3
   \<and> errorMessage (the (playNext emptyUrlEnv [] lastSongPlayer)) \<noteq> None
   \<and> loadingTrackIndex (lastSongPlayer\<lparr> loadingTrackIndex := Some 0 \<rparr>) = Some 0
   \<and> playNext sampleEnv [] (lastSongPlayer\<lparr> loadingTrackIndex := Some 0 \<rparr>)
       = Some (lastSongPlayer\<lparr> loadingTrackIndex := Some 0 \<rparr>)"
proof -
  have len: "length (musicList lastSongPlayer) = 4" "length (musicList initialPlayer) = 4"
    "currentSongIndex lastSongPlayer = 3" "currentSongIndex initialPlayer = - 1"
    "playbackModeRef lastSongPlayer = Order"
    "loadingTrackIndex lastSongPlayer = None" "loadingTrackIndex initialPlayer = None"
    by (simp_all add: lastSongPlayer_def initialPlayer_def INITIAL_SOURCE_TRACKS_def
          INITIAL_TRACKS_def LOCAL_TRACKS_def createTrack_def DEFAULT_SOURCE_def)
  have r0: "playSongResolves sampleEnv 0 initialPlayer" by (simp add: play_eval)
  have r1: "playSongResolves sampleEnv 0 lastSongPlayer" by (simp add: play_eval)
  have r2: "playSongResolves sampleEnv 2 lastSongPlayer" by (simp add: play_eval)
  have r3: "\<not> playSongResolves emptyUrlEnv 0 lastSongPlayer" by (simp add: play_eval)
  define L where "L = lastSongPlayer\<lparr> loadingTrackIndex := Some 0 \<rparr>"
  have l: "length (musicList L) = 4" "currentSongIndex L = 3" "playbackModeRef L = Order"
    "loadingTrackIndex L = Some 0"
    using len by (simp_all add: L_def)
  define E where "E = initialPlayer\<lparr> musicList := [] \<rparr>"
  have e: "length (musicList E) = 0" by (simp add: E_def)
  show ?thesis
    using playNext_playPrevious_order [of E sampleEnv "[]" 0]
      playNext_playPrevious_order [of initialPlayer sampleEnv "[]" 0]
      playNext_playPrevious_order [of lastSongPlayer sampleEnv "[]" 0]
      playNext_playPrevious_order [of lastSongPlayer sampleEnv "[]" 2]
      playNext_playPrevious_order [of lastSongPlayer emptyUrlEnv "[]" 0]
      playNext_playPrevious_order [of L sampleEnv "[]" 0]
      len r0 r1 r2 r3 l e
    unfolding L_def [symmetric] E_def [symmetric]
    by simp
qed

end
